theory Spec2Isabelle
  imports Complex_Main "HOL-Library.Word"
begin

section \<open>JavaScript strings\<close>

text \<open>
  A JavaScript string is a sequence of UTF-16 code units. The literals of the program
  that are not ASCII (the transfers category, the Cyrillic bank token) are written as
  their code units.
\<close>

type_synonym jschar = "16 word"
type_synonym jstring = "jschar list"

definition js :: "string \<Rightarrow> jstring" where
  "js s = map (\<lambda>c. of_nat (of_char c)) s"

text \<open>\<open>String.prototype.split\<close> with a separator of one code unit.\<close>

fun splitOn :: "jschar \<Rightarrow> jstring \<Rightarrow> jstring list" where
  "splitOn sep [] = [[]]"
| "splitOn sep (c # cs) =
     (if c = sep then [] # splitOn sep cs
      else (case splitOn sep cs of
              [] \<Rightarrow> [[c]]
            | p # ps \<Rightarrow> (c # p) # ps))"

text \<open>Reading an array element: \<open>undefined\<close> beyond the end.\<close>

fun elemAt :: "'a list \<Rightarrow> nat \<Rightarrow> 'a option" where
  "elemAt [] i = None"
| "elemAt (x # xs) 0 = Some x"
| "elemAt (x # xs) (Suc i) = elemAt xs i"

subsection \<open>Integers as decimal strings\<close>

definition digitChar :: "nat \<Rightarrow> jschar" where
  "digitChar d = of_nat (48 + d)"

fun showNat :: "nat \<Rightarrow> jstring" where
  "showNat n = (if n < 10 then [digitChar n] else showNat (n div 10) @ [digitChar (n mod 10)])"

declare showNat.simps [simp del]

text \<open>\<open>String(n)\<close> and \<open>`${n}`\<close> for an integer \<open>n\<close>.\<close>

definition showInt :: "int \<Rightarrow> jstring" where
  "showInt i = (if i < 0 then 45 # showNat (nat (- i)) else showNat (nat i))"

text \<open>\<open>s.padStart(2, '0')\<close>.\<close>

definition padStart2 :: "jstring \<Rightarrow> jstring" where
  "padStart2 s = replicate (2 - length s) 48 @ s"

definition isDigit :: "jschar \<Rightarrow> bool" where
  "isDigit c = (48 \<le> unat c \<and> unat c \<le> 57)"

definition digitsValue :: "jstring \<Rightarrow> nat" where
  "digitsValue s = foldl (\<lambda>a c. a * 10 + (unat c - 48)) 0 s"

text \<open>
  \<open>Number(s)\<close>, with \<open>None\<close> for \<open>NaN\<close>. The model covers the empty string (which is 0)
  and sequences of decimal digits, the only strings that the pieces of a key made by
  \<open>getSalaryMonthKey\<close> can be; every other string is \<open>NaN\<close> here (signs, fractions,
  exponents, hexadecimal literals and surrounding white space are left out).
\<close>

definition toNumber :: "jstring \<Rightarrow> int option" where
  "toNumber s = (if list_all isDigit s then Some (int (digitsValue s)) else None)"

section \<open>Dates\<close>

text \<open>
  A \<open>Date\<close> is kept as its local calendar fields, the way the program reads it
  (\<open>getFullYear\<close>, \<open>getMonth\<close>, \<open>getDate\<close>), with \<open>getMonth\<close> counting from 0. Local
  time is a uniform time line (no zone offset and no daylight-saving shifts), and the
  invalid date is not a value of this type.
\<close>

record date =
  getFullYear :: int
  getMonth :: int
  getDate :: int
  getHours :: int
  getMinutes :: int
  getSeconds :: int
  getMilliseconds :: int

definition isLeap :: "int \<Rightarrow> bool" where
  "isLeap y = ((y mod 4 = 0 \<and> y mod 100 \<noteq> 0) \<or> y mod 400 = 0)"

definition monthLength :: "int \<Rightarrow> int \<Rightarrow> int" where
  "monthLength y m =
     (if m = 1 then (if isLeap y then 29 else 28)
      else if m = 3 \<or> m = 5 \<or> m = 8 \<or> m = 10 then 30 else 31)"

text \<open>
  The calendar dates that a \<open>Date\<close> can hold: fields in their ranges, and whole years
  within the range of time values of the language.
\<close>

definition validDate :: "date \<Rightarrow> bool" where
  "validDate d =
     (- 271820 \<le> getFullYear d \<and> getFullYear d \<le> 275759
      \<and> 0 \<le> getMonth d \<and> getMonth d \<le> 11
      \<and> 1 \<le> getDate d \<and> getDate d \<le> monthLength (getFullYear d) (getMonth d)
      \<and> 0 \<le> getHours d \<and> getHours d \<le> 23
      \<and> 0 \<le> getMinutes d \<and> getMinutes d \<le> 59
      \<and> 0 \<le> getSeconds d \<and> getSeconds d \<le> 59
      \<and> 0 \<le> getMilliseconds d \<and> getMilliseconds d \<le> 999)"

text \<open>The day number of 1 January of a year, counted from 1 January 1970.\<close>

definition dayFromYear :: "int \<Rightarrow> int" where
  "dayFromYear y =
     365 * (y - 1970) + (y - 1969) div 4 - (y - 1901) div 100 + (y - 1601) div 400"

definition daysBeforeMonth :: "int \<Rightarrow> int \<Rightarrow> int" where
  "daysBeforeMonth y m =
     (if m = 0 then 0 else if m = 1 then 31
      else (if isLeap y then 1 else 0) +
        (if m = 2 then 59 else if m = 3 then 90 else if m = 4 then 120
         else if m = 5 then 151 else if m = 6 then 181 else if m = 7 then 212
         else if m = 8 then 243 else if m = 9 then 273 else if m = 10 then 304
         else 334))"

definition dayNumber :: "date \<Rightarrow> int" where
  "dayNumber d =
     dayFromYear (getFullYear d) + daysBeforeMonth (getFullYear d) (getMonth d)
       + getDate d - 1"

definition msPerDay :: int where
  "msPerDay = 1000 * 60 * 60 * 24"

definition timeInDay :: "date \<Rightarrow> int" where
  "timeInDay d =
     getHours d * 3600000 + getMinutes d * 60000 + getSeconds d * 1000 + getMilliseconds d"

definition getTime :: "date \<Rightarrow> int" where
  "getTime d = dayNumber d * msPerDay + timeInDay d"

text \<open>
  \<open>new Date(year, monthIndex, day, hours, minutes, seconds)\<close>: a year from 0 to 99 means
  1900 + year, and a month index outside 0..11 carries into the year. The program passes
  only the days 23 and 22 and the times 00:00:00 and 23:59:59, which never carry.
\<close>

definition newDate :: "int \<Rightarrow> int \<Rightarrow> int \<Rightarrow> int \<Rightarrow> int \<Rightarrow> int \<Rightarrow> date" where
  "newDate y m d h mi s =
     (let yr = (if 0 \<le> y \<and> y \<le> 99 then 1900 + y else y)
      in \<lparr> getFullYear = yr + m div 12, getMonth = m mod 12, getDate = d,
           getHours = h, getMinutes = mi, getSeconds = s, getMilliseconds = 0 \<rparr>)"

section \<open>The salary calendar\<close>

definition SALARY_DAY :: int where
  "SALARY_DAY = 23"

definition getSalaryMonthKey :: "date \<Rightarrow> jstring" where
  "getSalaryMonthKey d =
     (let day = getDate d;
          year = getFullYear d;
          month = getMonth d + 1;
          (year, month) =
            (if day < SALARY_DAY
             then (let month = month - 1
                   in if month < 1 then (year - 1, 12) else (year, month))
             else (year, month))
      in showInt year @ js ''-'' @ padStart2 (showInt month))"

record salaryRange =
  rangeStart :: "date option"
  rangeEnd :: "date option"

text \<open>
  \<open>getSalaryMonthRange\<close>: a piece of the key that is no number makes both dates invalid
  (\<open>None\<close>).
\<close>

definition getSalaryMonthRange :: "jstring \<Rightarrow> salaryRange" where
  "getSalaryMonthRange salaryMonthKey =
     (let parts = map toNumber (splitOn 45 salaryMonthKey)
      in case (Option.bind (elemAt parts 0) id, Option.bind (elemAt parts 1) id) of
           (Some year, Some month) \<Rightarrow>
             (let start = newDate year (month - 1) SALARY_DAY 0 0 0;
                  endYear = year;
                  endMonth = month + 1;
                  (endYear, endMonth) =
                    (if endMonth > 12 then (endYear + 1, 1) else (endYear, endMonth));
                  end = newDate endYear (endMonth - 1) 22 23 59 59
              in \<lparr> rangeStart = Some start, rangeEnd = Some end \<rparr>)
         | _ \<Rightarrow> \<lparr> rangeStart = None, rangeEnd = None \<rparr>)"

definition isInSalaryMonth :: "date \<Rightarrow> jstring \<Rightarrow> bool" where
  "isInSalaryMonth d salaryMonthKey =
     (case (rangeStart (getSalaryMonthRange salaryMonthKey),
            rangeEnd (getSalaryMonthRange salaryMonthKey)) of
        (Some start, Some end) \<Rightarrow> getTime d \<ge> getTime start \<and> getTime d \<le> getTime end
      | _ \<Rightarrow> False)"

text \<open>The day counts are \<open>NaN\<close> (\<open>None\<close>) when the range is invalid.\<close>

definition getSalaryMonthDay :: "date \<Rightarrow> int option" where
  "getSalaryMonthDay d =
     (let salaryMonthKey = getSalaryMonthKey d
      in case rangeStart (getSalaryMonthRange salaryMonthKey) of
           Some start \<Rightarrow>
             (let diffTime = getTime d - getTime start;
                  diffDays = diffTime div msPerDay
              in Some (diffDays + 1))
         | None \<Rightarrow> None)"

definition getSalaryMonthDays :: "jstring \<Rightarrow> int option" where
  "getSalaryMonthDays salaryMonthKey =
     (case (rangeStart (getSalaryMonthRange salaryMonthKey),
            rangeEnd (getSalaryMonthRange salaryMonthKey)) of
        (Some start, Some end) \<Rightarrow>
          (let diffTime = getTime end - getTime start
           in Some (diffTime div msPerDay + 1))
      | _ \<Rightarrow> None)"

section \<open>Numbers\<close>

text \<open>
  The numbers of the language are the binary floating-point numbers with a significand of
  53 bits. An arithmetic operation gives the exact result rounded to the nearest such
  number, a tie going to the even significand. A number is kept as the real number it
  stands for. The model has numbers of every exponent: overflow to infinity and the
  loss of precision of the smallest numbers are left out, as are \<open>NaN\<close> and the sign
  of zero.
\<close>

definition pow2 :: "int \<Rightarrow> real" where
  "pow2 k = (if 0 \<le> k then 2 ^ nat k else 1 / 2 ^ nat (- k))"

text \<open>The number of binary digits of a positive integer.\<close>

function bitLength :: "int \<Rightarrow> int" where
  "bitLength n = (if n \<le> 0 then 0 else 1 + bitLength (n div 2))"
  by auto
termination
  by (relation "measure nat") auto

declare bitLength.simps [simp del]

text \<open>The exponent \<open>e\<close> of a positive \<open>a\<close>: 2 to the \<open>e\<close> is at most \<open>a\<close>, which is below 2 to the \<open>e + 1\<close>.\<close>

definition binaryExponent :: "real \<Rightarrow> int" where
  "binaryExponent a =
     (if 1 \<le> a then bitLength \<lfloor>a\<rfloor> - 1
      else - bitLength (\<lceil>1 / a\<rceil> - 1))"

definition roundEven :: "real \<Rightarrow> int" where
  "roundEven q =
     (let f = \<lfloor>q\<rfloor>; r = q - of_int f
      in if r < 1 / 2 then f else if 1 / 2 < r then f + 1
         else if even f then f else f + 1)"

definition roundDouble :: "real \<Rightarrow> real" where
  "roundDouble x =
     (if x = 0 then 0
      else (let a = \<bar>x\<bar>; ulp = pow2 (binaryExponent a - 52)
            in sgn x * (of_int (roundEven (a / ulp)) * ulp)))"

text \<open>
  \<open>x + y\<close>, \<open>x - y\<close>, \<open>x * y\<close> and \<open>x / y\<close> on numbers; the quotient is used with a divisor
  that is not zero.
\<close>

definition addNumber :: "real \<Rightarrow> real \<Rightarrow> real" where
  "addNumber x y = roundDouble (x + y)"

definition subNumber :: "real \<Rightarrow> real \<Rightarrow> real" where
  "subNumber x y = roundDouble (x - y)"

definition mulNumber :: "real \<Rightarrow> real \<Rightarrow> real" where
  "mulNumber x y = roundDouble (x * y)"

definition divNumber :: "real \<Rightarrow> real \<Rightarrow> real" where
  "divNumber x y = roundDouble (x / y)"

section \<open>Transactions and the store\<close>

datatype txKind = Expense | Income

datatype poolType = Daily | Monthly | Mandatory | Other

text \<open>
  The fields \<open>id\<close>, \<open>date\<close> and \<open>type\<close> of the source are \<open>txId\<close>, \<open>txDate\<close> and
  \<open>txType\<close> here. Amounts are numbers of the language.
\<close>

record transaction =
  txId :: jstring
  txDate :: date
  amount :: real
  category :: jstring
  description :: jstring
  cardNumber :: jstring
  mcc :: jstring
  txType :: txKind
  isFiltered :: bool
  filterReason :: "jstring option"
  pool :: poolType

record mandatoryPayments =
  batman :: real
  claudeCode :: real
  debtPayment :: real

record budgetState =
  income :: real
  mandatory :: mandatoryPayments
  dailyTarget :: real
  totalDebt :: real
  paidDebt :: real
  foodPoolBudget :: real
  monthlyPoolBudget :: real

record categoryData =
  name :: jstring
  categoryAmount :: real
  percentage :: real
  categoryCount :: nat

record monthlyData =
  month :: jstring
  totalExpenses :: real
  totalIncome :: real
  dailyPoolSpent :: real
  monthlyPoolSpent :: real
  mandatorySpent :: real
  categories :: "categoryData list"

record transactionState =
  transactions :: "transaction list"
  isLoading :: bool
  error :: "jstring option"
  budget :: budgetState
  selectedMonth :: "jstring option"
  selectedDay :: "jstring option"

text \<open>
  The functions of the JavaScript runtime that the program calls and that depend on
  Unicode tables, the locale or floating point. They are parameters of the model: every
  theorem below holds for any runtime. \<open>parseFloat\<close> gives \<open>None\<close> for \<open>NaN\<close> (the
  infinities are left out); \<open>dateFromString\<close> is \<open>new Date(isoString)\<close>.
\<close>

record runtime =
  localeCompare :: "jstring \<Rightarrow> jstring \<Rightarrow> int"
  toLowerCase :: "jstring \<Rightarrow> jstring"
  parseFloat :: "jstring \<Rightarrow> real option"
  numberToString :: "real \<Rightarrow> jstring"
  dateFromString :: "jstring \<Rightarrow> date"

text \<open>
  \<open>Array.prototype.sort\<close> is stable; \<open>le a b\<close> says that the comparator is not positive
  on \<open>(a, b)\<close>. For a consistent comparator the result is the stable sort; for an
  inconsistent one the order of the result is left to the engine, and no theorem below
  depends on it.
\<close>

fun insertBy :: "('a \<Rightarrow> 'a \<Rightarrow> bool) \<Rightarrow> 'a \<Rightarrow> 'a list \<Rightarrow> 'a list" where
  "insertBy le x [] = [x]"
| "insertBy le x (y # ys) = (if le x y then x # y # ys else y # insertBy le x ys)"

definition sortBy :: "('a \<Rightarrow> 'a \<Rightarrow> bool) \<Rightarrow> 'a list \<Rightarrow> 'a list" where
  "sortBy le xs = foldr (insertBy le) xs []"

text \<open>
  A \<open>Map\<close> keeps its keys in insertion order. \<open>mapPush\<close> is the body of the grouping
  loops: create the entry when the key is new, then push onto its array.
\<close>

fun mapPush :: "'k \<Rightarrow> 'v \<Rightarrow> ('k \<times> 'v list) list \<Rightarrow> ('k \<times> 'v list) list" where
  "mapPush k v [] = [(k, [v])]"
| "mapPush k v ((k', vs) # rest) =
     (if k' = k then (k', vs @ [v]) # rest else (k', vs) # mapPush k v rest)"

definition groupByKey :: "('v \<Rightarrow> 'k) \<Rightarrow> 'v list \<Rightarrow> ('k \<times> 'v list) list" where
  "groupByKey key xs = foldl (\<lambda>m tx. mapPush (key tx) tx m) [] xs"

definition getFilteredTransactions :: "transactionState \<Rightarrow> transaction list" where
  "getFilteredTransactions st = filter (\<lambda>t. \<not> isFiltered t) (transactions st)"

text \<open>\<open>reduce((sum, t) => sum + Math.abs(t.amount), 0)\<close> and its signed variant.\<close>

definition sumAbs :: "transaction list \<Rightarrow> real" where
  "sumAbs txs = foldl (\<lambda>sum t. addNumber sum \<bar>amount t\<bar>) 0 txs"

definition sumAmount :: "transaction list \<Rightarrow> real" where
  "sumAmount txs = foldl (\<lambda>sum t. addNumber sum (amount t)) 0 txs"

fun categoryPut :: "jstring \<Rightarrow> real \<Rightarrow> (jstring \<times> real \<times> nat) list \<Rightarrow> (jstring \<times> real \<times> nat) list" where
  "categoryPut c a [] = [(c, addNumber 0 a, 0 + 1)]"
| "categoryPut c a ((c', amt, cnt) # rest) =
     (if c' = c then (c', addNumber amt a, cnt + 1) # rest else (c', amt, cnt) # categoryPut c a rest)"

definition getCategoryData :: "transaction list \<Rightarrow> categoryData list" where
  "getCategoryData txs =
     (let categoryMap = foldl (\<lambda>m tx. categoryPut (category tx) \<bar>amount tx\<bar> m) [] txs;
          total = foldl (\<lambda>sum c. addNumber sum (fst (snd c))) 0 categoryMap;
          result = map (\<lambda>(c, amt, cnt).
                     \<lparr> name = c, categoryAmount = amt,
                       percentage = (if total > 0 then mulNumber (divNumber amt total) 100 else 0),
                       categoryCount = cnt \<rparr>) categoryMap
      in sortBy (\<lambda>a b. subNumber (categoryAmount b) (categoryAmount a) \<le> 0) result)"

definition monthEntry :: "jstring \<Rightarrow> transaction list \<Rightarrow> monthlyData" where
  "monthEntry key txs =
     (let expenses = filter (\<lambda>t. txType t = Expense) txs;
          income = filter (\<lambda>t. txType t = Income) txs
      in \<lparr> month = key,
           totalExpenses = sumAbs expenses,
           totalIncome = sumAmount income,
           dailyPoolSpent = sumAbs (filter (\<lambda>t. pool t = Daily) expenses),
           monthlyPoolSpent = sumAbs (filter (\<lambda>t. pool t \<noteq> Daily) expenses),
           mandatorySpent = sumAbs (filter (\<lambda>t. pool t = Mandatory) expenses),
           categories = getCategoryData expenses \<rparr>)"

definition getMonthlyData :: "runtime \<Rightarrow> transactionState \<Rightarrow> monthlyData list" where
  "getMonthlyData rt st =
     (let filtered = getFilteredTransactions st;
          monthMap = groupByKey (\<lambda>tx. getSalaryMonthKey (txDate tx)) filtered;
          result = map (\<lambda>(key, txs). monthEntry key txs) monthMap
      in sortBy (\<lambda>a b. localeCompare rt (month b) (month a) \<le> 0) result)"

text \<open>
  JavaScript numbers that may fail to be finite: the quotient and \<open>Math.max(0, _)\<close> of
  \<open>getCurrentMonthStats\<close>.
\<close>

datatype jsnumber = Finite real | PosInfinity | NegInfinity | NaN

definition jsDivide :: "real \<Rightarrow> int \<Rightarrow> jsnumber" where
  "jsDivide x n =
     (if n \<noteq> 0 then Finite (divNumber x (of_int n))
      else if x > 0 then PosInfinity else if x < 0 then NegInfinity else NaN)"

fun mathMax0 :: "jsnumber \<Rightarrow> jsnumber" where
  "mathMax0 (Finite x) = Finite (max 0 x)"
| "mathMax0 PosInfinity = PosInfinity"
| "mathMax0 NegInfinity = Finite 0"
| "mathMax0 NaN = NaN"

text \<open>
  The result of \<open>getCurrentMonthStats\<close>. Its first three fields are \<open>dailyPoolSpent\<close>,
  \<open>monthlyPoolSpent\<close> and \<open>mandatorySpent\<close> in the source; the day counts are \<open>None\<close>
  when they are \<open>NaN\<close>.
\<close>

record monthStats =
  statsDailyPoolSpent :: real
  statsMonthlyPoolSpent :: real
  statsMandatorySpent :: real
  daysRemaining :: "int option"
  dailyBudget :: jsnumber
  currentMonth :: jstring
  currentDay :: "int option"
  daysInMonth :: "int option"

text \<open>\<open>filtered.reduce((latest, tx) => tx.date > latest.date ? tx : latest)\<close>.\<close>

definition latestOf :: "transaction \<Rightarrow> transaction list \<Rightarrow> transaction" where
  "latestOf first rest =
     foldl (\<lambda>latest tx. if getTime (txDate tx) > getTime (txDate latest) then tx else latest)
       first rest"

text \<open>
  \<open>now\<close> is the value of \<open>new Date()\<close>, read when no transaction is left. A local
  variable whose name is a field of the result carries a prime.
\<close>

definition getCurrentMonthStats :: "date \<Rightarrow> transactionState \<Rightarrow> monthStats" where
  "getCurrentMonthStats now st =
     (let filtered = getFilteredTransactions st;
          latestDate = (case filtered of
                          first # rest \<Rightarrow> txDate (latestOf first rest)
                        | [] \<Rightarrow> now);
          currentMonth' = getSalaryMonthKey latestDate;
          currentDay' = getSalaryMonthDay latestDate;
          currentMonthTxs = filter
            (\<lambda>tx. isInSalaryMonth (txDate tx) currentMonth' \<and> txType tx = Expense) filtered;
          dailyPoolSpent = sumAbs (filter (\<lambda>t. pool t = Daily) currentMonthTxs);
          monthlyPoolSpent = sumAbs (filter (\<lambda>t. pool t \<noteq> Daily) currentMonthTxs);
          mandatorySpent = sumAbs (filter (\<lambda>t. pool t = Mandatory) currentMonthTxs);
          daysInMonth' = getSalaryMonthDays currentMonth';
          daysRemaining' = (case (daysInMonth', currentDay') of
                             (Some n, Some c) \<Rightarrow> Some (n - c + 1)
                           | _ \<Rightarrow> None);
          dailyPool = map_option (\<lambda>n. mulNumber (dailyTarget (budget st)) (of_int n)) daysInMonth';
          dailyBudget' = (case (dailyPool, daysRemaining') of
                            (Some p, Some r) \<Rightarrow> mathMax0 (jsDivide (subNumber p dailyPoolSpent) r)
                          | _ \<Rightarrow> NaN)
      in \<lparr> statsDailyPoolSpent = dailyPoolSpent,
           statsMonthlyPoolSpent = monthlyPoolSpent,
           statsMandatorySpent = mandatorySpent,
           daysRemaining = daysRemaining',
           dailyBudget = dailyBudget',
           currentMonth = currentMonth',
           currentDay = currentDay',
           daysInMonth = daysInMonth' \<rparr>)"

section \<open>The classifier\<close>

text \<open>\<open>s.includes(sub)\<close> on strings.\<close>

fun startsWith :: "jstring \<Rightarrow> jstring \<Rightarrow> bool" where
  "startsWith s [] = True"
| "startsWith [] (p # ps) = False"
| "startsWith (c # cs) (p # ps) = (c = p \<and> startsWith cs ps)"

fun includesStr :: "jstring \<Rightarrow> jstring \<Rightarrow> bool" where
  "includesStr [] sub = (sub = [])"
| "includesStr (c # cs) sub = (startsWith (c # cs) sub \<or> includesStr cs sub)"

text \<open>
  The lists of \<open>shared/config\<close>, which is not among the sources: they are a parameter of
  the classifier.
\<close>

record filterConfig =
  EXCLUDED_PEOPLE :: "jstring list"
  EXCLUDED_DESCRIPTIONS_INCOME :: "jstring list"
  EXCLUDED_DESCRIPTIONS_EXPENSE :: "jstring list"
  REFUND_KEYWORDS :: "jstring list"
  EXPENSE_CATEGORIES :: "jstring list"
  DAILY_CATEGORIES :: "jstring list"
  MONTHLY_CATEGORIES :: "jstring list"

record filterResult =
  shouldInclude :: bool
  reason :: "jstring option"

text \<open>The literals of \<open>filterRules.ts\<close> in Cyrillic letters, as code units.\<close>

definition transfersCategory :: jstring where
  \<comment> \<open>the category of transfers\<close>
  "transfersCategory = [1055, 1077, 1088, 1077, 1074, 1086, 1076, 1099]"

definition sovcombankCyrillic :: jstring where
  \<comment> \<open>the name of the bank in lower-case Cyrillic letters\<close>
  "sovcombankCyrillic = [1089, 1086, 1074, 1082, 1086, 1084, 1073, 1072, 1085, 1082]"

definition transfersReason :: jstring where
  \<comment> \<open>"category transfers"\<close>
  "transfersReason =
     [1050, 1072, 1090, 1077, 1075, 1086, 1088, 1080, 1103, 32,
      1055, 1077, 1088, 1077, 1074, 1086, 1076, 1099]"

definition transferForPrefix :: jstring where
  \<comment> \<open>"transfer for ", before the name of the person\<close>
  "transferForPrefix = [1055, 1077, 1088, 1077, 1074, 1086, 1076, 32, 1076, 1083, 1103, 32]"

definition transferFromPrefix :: jstring where
  \<comment> \<open>"transfer from ", before the name of the person\<close>
  "transferFromPrefix = [1055, 1077, 1088, 1077, 1074, 1086, 1076, 32, 1086, 1090, 32]"

definition excludedPrefix :: jstring where
  \<comment> \<open>"excluded: ", before the substring\<close>
  "excludedPrefix = [1048, 1089, 1082, 1083, 1102, 1095, 1077, 1085, 1086, 58, 32]"

definition refundReason :: jstring where
  \<comment> \<open>"refund/compensation"\<close>
  "refundReason =
     [1042, 1086, 1079, 1074, 1088, 1072, 1090, 47, 1082, 1086, 1084, 1087, 1077, 1085,
      1089, 1072, 1094, 1080, 1103]"

definition refundInCategoryPrefix :: jstring where
  \<comment> \<open>"refund in category ", before the category\<close>
  "refundInCategoryPrefix =
     [1042, 1086, 1079, 1074, 1088, 1072, 1090, 32, 1074, 32, 1082, 1072, 1090, 1077,
      1075, 1086, 1088, 1080, 1080, 32]"

text \<open>
  A \<open>for (const x of list) if (p x) return r x\<close> loop returns at the first element that
  satisfies the test: \<open>find\<close>.
\<close>

definition filterIncome :: "runtime \<Rightarrow> filterConfig \<Rightarrow> transaction \<Rightarrow> filterResult" where
  "filterIncome rt cfg tx =
     (let desc = toLowerCase rt (description tx)
      in case find (\<lambda>excluded. includesStr desc (toLowerCase rt excluded))
                (EXCLUDED_DESCRIPTIONS_INCOME cfg) of
           Some excluded \<Rightarrow> \<lparr> shouldInclude = False, reason = Some (excludedPrefix @ excluded) \<rparr>
         | None \<Rightarrow>
      (case find (\<lambda>person. includesStr (description tx) person) (EXCLUDED_PEOPLE cfg) of
           Some person \<Rightarrow> \<lparr> shouldInclude = False, reason = Some (transferFromPrefix @ person) \<rparr>
         | None \<Rightarrow>
      (case find (\<lambda>keyword. includesStr desc keyword) (REFUND_KEYWORDS cfg) of
           Some keyword \<Rightarrow> \<lparr> shouldInclude = False, reason = Some refundReason \<rparr>
         | None \<Rightarrow>
      (if category tx \<in> set (EXPENSE_CATEGORIES cfg)
       then \<lparr> shouldInclude = False, reason = Some (refundInCategoryPrefix @ category tx) \<rparr>
       else \<lparr> shouldInclude = True, reason = None \<rparr>))))"

definition filterExpense :: "runtime \<Rightarrow> filterConfig \<Rightarrow> transaction \<Rightarrow> filterResult" where
  "filterExpense rt cfg tx =
     (let desc = toLowerCase rt (description tx)
      in if category tx = transfersCategory
         then (if includesStr desc (js ''sovcombank'') \<or> includesStr desc sovcombankCyrillic
               then \<lparr> shouldInclude = True, reason = None \<rparr>
               else \<lparr> shouldInclude = False, reason = Some transfersReason \<rparr>)
         else
      (case find (\<lambda>excluded. includesStr desc (toLowerCase rt excluded)
                              \<or> includesStr (description tx) excluded)
                (EXCLUDED_DESCRIPTIONS_EXPENSE cfg) of
           Some excluded \<Rightarrow> \<lparr> shouldInclude = False, reason = Some excluded \<rparr>
         | None \<Rightarrow>
      (case find (\<lambda>person. includesStr (description tx) person) (EXCLUDED_PEOPLE cfg) of
           Some person \<Rightarrow> \<lparr> shouldInclude = False, reason = Some (transferForPrefix @ person) \<rparr>
         | None \<Rightarrow> \<lparr> shouldInclude = True, reason = None \<rparr>)))"

definition determinePool :: "runtime \<Rightarrow> filterConfig \<Rightarrow> transaction \<Rightarrow> poolType" where
  "determinePool rt cfg tx =
     (if txType tx = Income then Other
      else if category tx \<in> set (DAILY_CATEGORIES cfg) then Daily
      else if category tx \<in> set (MONTHLY_CATEGORIES cfg) then Monthly
      else (let desc = toLowerCase rt (description tx)
            in if includesStr desc (js ''sovcombank'') \<or> includesStr desc sovcombankCyrillic
               then Mandatory else Other))"

section \<open>The parser\<close>

text \<open>White space of \<open>trim\<close> and of the pattern \<open>\s\<close>.\<close>

definition isWhiteSpace :: "jschar \<Rightarrow> bool" where
  "isWhiteSpace c =
     (c = 9 \<or> c = 10 \<or> c = 11 \<or> c = 12 \<or> c = 13 \<or> c = 32 \<or> c = 160 \<or> c = 5760
      \<or> (8192 \<le> c \<and> c \<le> 8202) \<or> c = 8232 \<or> c = 8233 \<or> c = 8239 \<or> c = 8287
      \<or> c = 12288 \<or> c = 65279)"

definition trim :: "jstring \<Rightarrow> jstring" where
  "trim s = rev (dropWhile isWhiteSpace (rev (dropWhile isWhiteSpace s)))"

text \<open>\<open>s.replace(',', '.')\<close> replaces the first comma only.\<close>

fun replaceFirst :: "jschar \<Rightarrow> jschar \<Rightarrow> jstring \<Rightarrow> jstring" where
  "replaceFirst a b [] = []"
| "replaceFirst a b (c # cs) = (if c = a then b # cs else c # replaceFirst a b cs)"

text \<open>\<open>s.replace(/^"|"$/g, '')\<close>: one quote at the start and one at the end.\<close>

definition stripQuotes :: "jstring \<Rightarrow> jstring" where
  "stripQuotes s =
     (let s1 = (case s of c # cs \<Rightarrow> if c = 34 then cs else s | [] \<Rightarrow> [])
      in if s1 \<noteq> [] \<and> last s1 = 34 then butlast s1 else s1)"

definition parseAmount :: "runtime \<Rightarrow> jstring \<Rightarrow> real" where
  "parseAmount rt str =
     (if str = [] then 0
      else (let cleaned = filter (\<lambda>c. c \<noteq> 34)
                            (replaceFirst 44 46 (filter (\<lambda>c. \<not> isWhiteSpace c) str))
            in case parseFloat rt cleaned of
                 None \<Rightarrow> 0
               | Some v \<Rightarrow> (if v = 0 then 0 else v)))"

text \<open>A missing piece of the date reads \<open>undefined\<close> in the template string.\<close>

definition orUndefined :: "jstring option \<Rightarrow> jstring" where
  "orUndefined v = (case v of Some s \<Rightarrow> s | None \<Rightarrow> js ''undefined'')"

definition parseDate :: "runtime \<Rightarrow> jstring \<Rightarrow> date" where
  "parseDate rt str =
     (let cleaned = filter (\<lambda>c. c \<noteq> 34) str;
          parts = splitOn 32 cleaned;
          datePart = (case elemAt parts 0 of Some p \<Rightarrow> p | None \<Rightarrow> []);
          timePart = elemAt parts 1;
          dmy = splitOn 46 datePart;
          day = orUndefined (elemAt dmy 0);
          mon = orUndefined (elemAt dmy 1);
          year = orUndefined (elemAt dmy 2)
      in dateFromString rt
           (year @ js ''-'' @ mon @ js ''-'' @ day @ js ''T''
            @ (case timePart of
                 Some t \<Rightarrow> (if t = [] then js ''00:00:00'' else t)
               | None \<Rightarrow> js ''00:00:00'')))"

record rawTransaction =
  operationDate :: jstring
  paymentDate :: jstring
  rawCardNumber :: jstring
  status :: jstring
  operationAmount :: real
  operationCurrency :: jstring
  paymentAmount :: real
  paymentCurrency :: jstring
  cashback :: jstring
  rawCategory :: jstring
  rawMcc :: jstring
  rawDescription :: jstring
  bonuses :: jstring
  investRounding :: jstring
  amountWithRounding :: jstring

text \<open>
  \<open>generateId\<close>. The accumulator is a 32-bit integer: \<open>hash |= 0\<close> wraps the sum, which
  JavaScript computes exactly before. \<open>Math.abs(hash).toString(36)\<close> writes the absolute
  value of the signed accumulator with the digits 0-9 and a-z.
\<close>

definition digit36 :: "nat \<Rightarrow> jschar" where
  "digit36 d = (if d < 10 then of_nat (48 + d) else of_nat (87 + d))"

fun showBase36 :: "nat \<Rightarrow> jstring" where
  "showBase36 n = (if n < 36 then [digit36 n] else showBase36 (n div 36) @ [digit36 (n mod 36)])"

declare showBase36.simps [simp del]

definition hashStep :: "32 word \<Rightarrow> jschar \<Rightarrow> 32 word" where
  "hashStep hash c = (push_bit 5 hash - hash) + ucast c"

definition generateId :: "runtime \<Rightarrow> rawTransaction \<Rightarrow> int \<Rightarrow> jstring" where
  "generateId rt tx index =
     (let str = operationDate tx @ js ''-'' @ numberToString rt (operationAmount tx) @ js ''-''
                @ rawDescription tx @ js ''-'' @ showInt index;
          hash = foldl hashStep 0 str
      in showBase36 (nat \<bar>sint hash\<bar>))"

text \<open>The loop of \<open>parseCSVLine\<close> with its three variables.\<close>

fun parseCSVLineLoop :: "jstring \<Rightarrow> jstring list \<Rightarrow> jstring \<Rightarrow> bool \<Rightarrow> jstring list" where
  "parseCSVLineLoop [] result current inQuotes = result @ [stripQuotes (trim current)]"
| "parseCSVLineLoop (c # cs) result current inQuotes =
     (if c = 34 then parseCSVLineLoop cs result current (\<not> inQuotes)
      else if c = 59 \<and> \<not> inQuotes
        then parseCSVLineLoop cs (result @ [stripQuotes (trim current)]) [] inQuotes
      else parseCSVLineLoop cs result (current @ [c]) inQuotes)"

definition parseCSVLine :: "jstring \<Rightarrow> jstring list" where
  "parseCSVLine line = parseCSVLineLoop line [] [] False"

text \<open>\<open>values[k] || ''\<close> for the optional columns.\<close>

definition orEmpty :: "jstring option \<Rightarrow> jstring" where
  "orEmpty v = (case v of Some s \<Rightarrow> s | None \<Rightarrow> [])"

text \<open>
  One turn of the loop of \<open>parseCSV\<close> on \<open>lines[i]\<close>: \<open>None\<close> where the source says
  \<open>continue\<close>. The columns 0 to 11 are read after the check of the length.
\<close>

definition parseRow :: "runtime \<Rightarrow> filterConfig \<Rightarrow> int \<Rightarrow> jstring \<Rightarrow> transaction option" where
  "parseRow rt cfg i rawLine =
     (let line = trim rawLine
      in if line = [] then None
         else (let values = parseCSVLine line
               in if length values < 12 then None
                  else (let raw = \<lparr> operationDate = values ! 0,
                                    paymentDate = values ! 1,
                                    rawCardNumber = values ! 2,
                                    status = values ! 3,
                                    operationAmount = parseAmount rt (values ! 4),
                                    operationCurrency = values ! 5,
                                    paymentAmount = parseAmount rt (values ! 6),
                                    paymentCurrency = values ! 7,
                                    cashback = values ! 8,
                                    rawCategory = values ! 9,
                                    rawMcc = values ! 10,
                                    rawDescription = values ! 11,
                                    bonuses = orEmpty (elemAt values 12),
                                    investRounding = orEmpty (elemAt values 13),
                                    amountWithRounding = orEmpty (elemAt values 14) \<rparr>
                        in if status raw \<noteq> js ''OK'' then None
                           else (let isExpense = operationAmount raw < 0;
                                     tx = \<lparr> txId = generateId rt raw i,
                                            txDate = parseDate rt (operationDate raw),
                                            amount = operationAmount raw,
                                            category = rawCategory raw,
                                            description = rawDescription raw,
                                            cardNumber = rawCardNumber raw,
                                            mcc = rawMcc raw,
                                            txType = (if isExpense then Expense else Income),
                                            isFiltered = False,
                                            filterReason = None,
                                            pool = Other \<rparr>;
                                     filterResult = (if isExpense then filterExpense rt cfg tx
                                                     else filterIncome rt cfg tx);
                                     tx = tx \<lparr> isFiltered := \<not> shouldInclude filterResult \<rparr>;
                                     tx = tx \<lparr> filterReason := reason filterResult \<rparr>;
                                     tx = tx \<lparr> pool := determinePool rt cfg tx \<rparr>
                                 in Some tx))))"

fun parseRows :: "runtime \<Rightarrow> filterConfig \<Rightarrow> int \<Rightarrow> jstring list \<Rightarrow> transaction list" where
  "parseRows rt cfg i [] = []"
| "parseRows rt cfg i (l # ls) =
     (case parseRow rt cfg i l of
        None \<Rightarrow> parseRows rt cfg (i + 1) ls
      | Some tx \<Rightarrow> tx # parseRows rt cfg (i + 1) ls)"

text \<open>The loop starts at \<open>i = 1\<close>: the first line is never read.\<close>

definition parseCSV :: "runtime \<Rightarrow> filterConfig \<Rightarrow> jstring \<Rightarrow> transaction list" where
  "parseCSV rt cfg csvText =
     (let lines = splitOn 10 csvText;
          transactions = parseRows rt cfg 1 (drop 1 lines)
      in sortBy (\<lambda>a b. getTime (txDate b) - getTime (txDate a) \<le> 0) transactions)"

section \<open>Loading\<close>

text \<open>
  What \<open>fetch\<close> and \<open>response.text()\<close> can do: the request is rejected, or a response
  arrives with its \<open>ok\<close> flag and a body that can be read (\<open>Some\<close>) or not.
\<close>

datatype fetchOutcome = FetchRejected | Responded bool "jstring option"

text \<open>
  \<open>loadCSVFromPublic\<close>: a promise that is rejected is \<open>Inl\<close>. Every failure is caught,
  written to the console and answered with the empty list.
\<close>

definition loadCSVFromPublic ::
    "runtime \<Rightarrow> filterConfig \<Rightarrow> fetchOutcome \<Rightarrow> unit + transaction list" where
  "loadCSVFromPublic rt cfg outcome =
     (case outcome of
        FetchRejected \<Rightarrow> Inr []
      | Responded ok body \<Rightarrow>
          (if \<not> ok then Inr []
           else (case body of
                   None \<Rightarrow> Inr []
                 | Some text \<Rightarrow> Inr (parseCSV rt cfg text))))"

definition setTransactions :: "transaction list \<Rightarrow> transactionState \<Rightarrow> transactionState" where
  "setTransactions txs st = st \<lparr> transactions := txs \<rparr>"

definition setLoading :: "bool \<Rightarrow> transactionState \<Rightarrow> transactionState" where
  "setLoading b st = st \<lparr> isLoading := b \<rparr>"

definition setError :: "jstring option \<Rightarrow> transactionState \<Rightarrow> transactionState" where
  "setError e st = st \<lparr> error := e \<rparr>"

definition loadErrorMessage :: jstring where
  \<comment> \<open>"error while loading the data"\<close>
  "loadErrorMessage =
     [1054, 1096, 1080, 1073, 1082, 1072, 32, 1079, 1072, 1075, 1088, 1091, 1079, 1082,
      1080, 32, 1076, 1072, 1085, 1085, 1099, 1093]"

text \<open>\<open>loadData\<close> of the dashboard page, with its \<open>try\<close>, \<open>catch\<close> and \<open>finally\<close>.\<close>

definition loadData ::
    "runtime \<Rightarrow> filterConfig \<Rightarrow> fetchOutcome \<Rightarrow> transactionState \<Rightarrow> transactionState" where
  "loadData rt cfg outcome st =
     (let st = setLoading True st;
          st = (case loadCSVFromPublic rt cfg outcome of
                  Inr data \<Rightarrow> setTransactions data st
                | Inl err \<Rightarrow> setError (Some loadErrorMessage) st)
      in setLoading False st)"

text \<open>The effect that runs when the dashboard page is mounted.\<close>

definition dashboardMount ::
    "runtime \<Rightarrow> filterConfig \<Rightarrow> fetchOutcome \<Rightarrow> transactionState \<Rightarrow> transactionState" where
  "dashboardMount rt cfg outcome st =
     (if length (transactions st) = 0 then loadData rt cfg outcome st else st)"

section \<open>The budget calculator\<close>

text \<open>The figures that the \<open>BudgetCalculator\<close> component computes before it renders.\<close>

record budgetFigures =
  realIncome :: real
  totalPlannedBudget :: real
  remainder :: real
  foodPoolRemaining :: real
  monthlyPoolRemaining :: real
  effectiveDailyBudget :: "real option"

definition budgetCalculator :: "runtime \<Rightarrow> date \<Rightarrow> transactionState \<Rightarrow> budgetFigures" where
  "budgetCalculator rt now st =
     (let stats = getCurrentMonthStats now st;
          foodPoolBudget' = foodPoolBudget (budget st);
          monthlyPoolBudget' = monthlyPoolBudget (budget st);
          monthlyData = getMonthlyData rt st;
          currentMonthData = find (\<lambda>m. month m = currentMonth stats) monthlyData;
          realIncome' = (case currentMonthData of
                           Some m \<Rightarrow> (if totalIncome m = 0 then 0 else totalIncome m)
                         | None \<Rightarrow> 0);
          totalPlannedBudget' = addNumber foodPoolBudget' monthlyPoolBudget';
          remainder' = subNumber realIncome' totalPlannedBudget';
          foodPoolSpent = statsDailyPoolSpent stats;
          monthlyPoolSpent' = statsMonthlyPoolSpent stats;
          foodPoolRemaining' = subNumber foodPoolBudget' foodPoolSpent;
          monthlyPoolRemaining' = subNumber monthlyPoolBudget' monthlyPoolSpent';
          effectiveDailyBudget' = map_option (\<lambda>r. divNumber foodPoolRemaining' (of_int (max 1 r)))
                                    (daysRemaining stats)
      in \<lparr> realIncome = realIncome', totalPlannedBudget = totalPlannedBudget',
           remainder = remainder', foodPoolRemaining = foodPoolRemaining',
           monthlyPoolRemaining = monthlyPoolRemaining',
           effectiveDailyBudget = effectiveDailyBudget' \<rparr>)"

section \<open>Auxiliary notions of the proofs\<close>

text \<open>The key of the salary month that starts in month \<open>m\<close> (counted from 1) of year \<open>y\<close>.\<close>

definition keyOf :: "int \<Rightarrow> int \<Rightarrow> jstring" where
  "keyOf y m = showInt y @ js ''-'' @ padStart2 (showInt m)"

text \<open>
  The period of a date in the words of the specification: before the 23rd a date belongs
  to the period that started in the previous month, and January minus one is December of
  the year before.
\<close>

definition previousMonth :: "int \<times> int \<Rightarrow> int \<times> int" where
  "previousMonth ym = (if snd ym = 1 then (fst ym - 1, 12) else (fst ym, snd ym - 1))"

definition periodKeyOf :: "date \<Rightarrow> jstring" where
  "periodKeyOf d =
     (let cur = (getFullYear d, getMonth d + 1);
          start = (if getDate d < 23 then previousMonth cur else cur)
      in keyOf (fst start) (snd start))"

text \<open>The year that the \<open>Date\<close> constructor makes of its first argument.\<close>

definition fullYear :: "int \<Rightarrow> int" where
  "fullYear y = (if 0 \<le> y \<and> y \<le> 99 then 1900 + y else y)"

text \<open>
  A range whose start is a midnight, whose end is a 23:59:59 and whose last day is not
  before the day of \<open>d\<close>.
\<close>

definition goodRange :: "date \<Rightarrow> salaryRange \<Rightarrow> bool" where
  "goodRange d r = (\<exists>s e. r = \<lparr> rangeStart = Some s, rangeEnd = Some e \<rparr>
      \<and> timeInDay s = 0 \<and> timeInDay e = msPerDay - 1000 \<and> dayNumber d \<le> dayNumber e)"

text \<open>The date that \<open>getCurrentMonthStats\<close> takes for the current one.\<close>

definition latestDate :: "date \<Rightarrow> transactionState \<Rightarrow> date" where
  "latestDate now st = (case getFilteredTransactions st of
                          first # rest \<Rightarrow> txDate (latestOf first rest)
                        | [] \<Rightarrow> now)"

text \<open>
  What the grouping loop keeps true: the keys are distinct, every entry holds the
  elements of its key in their order, and every element has an entry.
\<close>

definition grouped :: "('v \<Rightarrow> 'k) \<Rightarrow> ('k \<times> 'v list) list \<Rightarrow> 'v list \<Rightarrow> bool" where
  "grouped key m xs =
     (distinct (map fst m)
      \<and> (\<forall>(k, vs) \<in> set m. vs = filter (\<lambda>x. key x = k) xs \<and> vs \<noteq> [])
      \<and> (\<forall>x \<in> set xs. key x \<in> fst ` set m))"

text \<open>The token in column \<open>k\<close> of a line, as \<open>parseCSV\<close> reads it.\<close>

definition fieldAt :: "jstring \<Rightarrow> nat \<Rightarrow> jstring" where
  "fieldAt l k = parseCSVLine (trim l) ! k"

text \<open>A line that \<open>parseCSV\<close> keeps: not blank, at least 12 tokens, status \<open>OK\<close>.\<close>

definition keptLine :: "jstring \<Rightarrow> bool" where
  "keptLine l = (trim l \<noteq> [] \<and> 12 \<le> length (parseCSVLine (trim l)) \<and> fieldAt l 3 = js ''OK'')"

text \<open>
  The hash in the words of the specification: the accumulator times 31 plus the code of
  the character, in 32 bits; and the string that is hashed, made of the date of the
  operation, the amount, the description and the index of the line, which the template
  of the source joins with hyphens.
\<close>

definition rollingHash :: "jstring \<Rightarrow> 32 word" where
  "rollingHash s = foldl (\<lambda>acc c. acc * 31 + ucast c) 0 s"

definition idSource :: "jstring \<Rightarrow> jstring \<Rightarrow> jstring \<Rightarrow> int \<Rightarrow> jstring" where
  "idSource opDate amt descr i = opDate @ js ''-'' @ amt @ js ''-'' @ descr @ js ''-'' @ showInt i"

text \<open>The digits of a number written in base 36.\<close>

definition isBase36Digit :: "jschar \<Rightarrow> bool" where
  "isBase36Digit c = ((48 \<le> c \<and> c \<le> 57) \<or> (97 \<le> c \<and> c \<le> 122))"

text \<open>
  A whole number; the largest whole number below 2 to the 53, up to which every whole
  number is a number of the language; and the sum of the absolute amounts in exact
  arithmetic.
\<close>

definition isWhole :: "real \<Rightarrow> bool" where
  "isWhole x = (of_int \<lfloor>x\<rfloor> = x)"

definition maxSafeInteger :: real where
  "maxSafeInteger = 9007199254740991"

definition exactSumAbs :: "transaction list \<Rightarrow> real" where
  "exactSumAbs txs = sum_list (map (\<lambda>t. \<bar>amount t\<bar>) txs)"


text \<open>
  The unit roundoff of the numbers of the language, and the bound on the relative error
  of a sum of \<open>n\<close> numbers of one sign that are added one after the other.
\<close>

definition unitRoundoff :: real where
  "unitRoundoff = 1 / 2 ^ 53"

definition sumErrorBound :: "nat \<Rightarrow> real" where
  "sumErrorBound n = (1 + unitRoundoff) ^ n - 1"
section \<open>A runtime and inputs for the worked examples\<close>

text \<open>
  The examples below are run with these stand-ins for the built-in functions: strings
  compare by code unit, letters of the Latin and the Russian alphabet are lowered,
  numbers are read from a decimal with an optional sign and fraction and rounded, a
  number is written with its exact decimal digits (the string of the language for the
  amounts of the examples), and a date string has the shape \<open>YYYY-MM-DDTHH:MM:SS\<close>.
\<close>

fun codeUnitCompare :: "jstring \<Rightarrow> jstring \<Rightarrow> int" where
  "codeUnitCompare [] [] = 0"
| "codeUnitCompare [] (y # ys) = - 1"
| "codeUnitCompare (x # xs) [] = 1"
| "codeUnitCompare (x # xs) (y # ys) =
     (if x < y then - 1 else if y < x then 1 else codeUnitCompare xs ys)"

definition lowerUnit :: "jschar \<Rightarrow> jschar" where
  "lowerUnit c =
     (if (65 \<le> c \<and> c \<le> 90) \<or> (1040 \<le> c \<and> c \<le> 1071) then c + 32
      else if 1024 \<le> c \<and> c \<le> 1039 then c + 80
      else c)"

definition decimalValue :: "jstring \<Rightarrow> real option" where
  "decimalValue s =
     (let neg = (case s of c # cs \<Rightarrow> c = 45 | [] \<Rightarrow> False);
          r = (case s of c # cs \<Rightarrow> if c = 45 \<or> c = 43 then cs else s | [] \<Rightarrow> []);
          ip = takeWhile isDigit r;
          fp = (case dropWhile isDigit r of
                  c # cs \<Rightarrow> if c = 46 then takeWhile isDigit cs else []
                | [] \<Rightarrow> []);
          v = real (digitsValue ip) + real (digitsValue fp) / 10 ^ length fp
      in if ip = [] \<and> fp = [] then None else Some (roundDouble (if neg then - v else v)))"

fun fractionDigits :: "nat \<Rightarrow> real \<Rightarrow> jstring" where
  "fractionDigits 0 f = []"
| "fractionDigits (Suc k) f =
     (if f = 0 then []
      else digitChar (nat \<lfloor>f * 10\<rfloor>) # fractionDigits k (f * 10 - of_int \<lfloor>f * 10\<rfloor>))"

definition decimalString :: "real \<Rightarrow> jstring" where
  "decimalString x =
     (let a = \<bar>x\<bar>; f = a - of_int \<lfloor>a\<rfloor>
      in (if x < 0 then [45] else []) @ showNat (nat \<lfloor>a\<rfloor>)
         @ (if f = 0 then [] else 46 # fractionDigits 20 f))"

definition isoDate :: "jstring \<Rightarrow> date" where
  "isoDate s =
     \<lparr> getFullYear = int (digitsValue (take 4 s)),
       getMonth = int (digitsValue (take 2 (drop 5 s))) - 1,
       getDate = int (digitsValue (take 2 (drop 8 s))),
       getHours = int (digitsValue (take 2 (drop 11 s))),
       getMinutes = int (digitsValue (take 2 (drop 14 s))),
       getSeconds = int (digitsValue (take 2 (drop 17 s))),
       getMilliseconds = 0 \<rparr>"

definition exampleRuntime :: runtime where
  "exampleRuntime =
     \<lparr> localeCompare = codeUnitCompare, toLowerCase = map lowerUnit,
       parseFloat = decimalValue, numberToString = decimalString,
       dateFromString = isoDate \<rparr>"

definition dateAt :: "int \<Rightarrow> int \<Rightarrow> int \<Rightarrow> int \<Rightarrow> int \<Rightarrow> int \<Rightarrow> int \<Rightarrow> date" where
  "dateAt y m d h mi s ms =
     \<lparr> getFullYear = y, getMonth = m - 1, getDate = d, getHours = h, getMinutes = mi,
       getSeconds = s, getMilliseconds = ms \<rparr>"

definition expenseOn :: "date \<Rightarrow> real \<Rightarrow> poolType \<Rightarrow> transaction" where
  "expenseOn d a p =
     \<lparr> txId = js ''1'', txDate = d, amount = a, category = js ''Food'',
       description = js ''Shop'', cardNumber = js ''*1234'', mcc = js ''5411'',
       txType = Expense, isFiltered = False, filterReason = None, pool = p \<rparr>"

definition incomeOn :: "date \<Rightarrow> real \<Rightarrow> transaction" where
  "incomeOn d a =
     \<lparr> txId = js ''2'', txDate = d, amount = a, category = js ''Salary'',
       description = js ''Pay'', cardNumber = js ''*1234'', mcc = [],
       txType = Income, isFiltered = False, filterReason = None, pool = Other \<rparr>"

definition exampleBudget :: budgetState where
  "exampleBudget =
     \<lparr> income = 100000,
       mandatory = \<lparr> batman = 0, claudeCode = 0, debtPayment = 0 \<rparr>,
       dailyTarget = 1000, totalDebt = 0, paidDebt = 0,
       foodPoolBudget = 50000, monthlyPoolBudget = 40000 \<rparr>"

definition storeOf :: "transaction list \<Rightarrow> transactionState" where
  "storeOf txs =
     \<lparr> transactions = txs, isLoading = False, error = None, budget = exampleBudget,
       selectedMonth = None, selectedDay = None \<rparr>"

text \<open>A line of the statement: every field in quotes, fields separated by semicolons.\<close>

definition csvRow :: "jstring list \<Rightarrow> jstring" where
  "csvRow cells = foldr (\<lambda>f acc. (34 # f @ [34]) @ (if acc = [] then [] else 59 # acc)) cells []"

definition exampleConfig :: filterConfig where
  "exampleConfig =
     \<lparr> EXCLUDED_PEOPLE = [js ''Ivan I.''],
       EXCLUDED_DESCRIPTIONS_INCOME = [js ''between own accounts''],
       EXCLUDED_DESCRIPTIONS_EXPENSE = [js ''Sovcombank'', js ''deposit''],
       REFUND_KEYWORDS = [js ''refund''],
       EXPENSE_CATEGORIES = [js ''Food'', transfersCategory],
       DAILY_CATEGORIES = [js ''Food''],
       MONTHLY_CATEGORIES = [js ''Transport''] \<rparr>"

definition headerLine :: jstring where
  "headerLine = js ''Date;Payment date;Card;Status;Amount;Currency;Payment amount;Payment currency;Cashback;Category;MCC;Description''"

definition statementRow :: "jstring \<Rightarrow> jstring" where
  "statementRow st =
     csvRow [js ''22.11.2025 14:30:00'', js ''22.11.2025'', js ''*1234'', st, js ''-150,50'',
             js ''RUB'', js ''-150,50'', js ''RUB'', [], js ''Food'', js ''5812'', js ''Cafe'']"

definition twoRowStatement :: jstring where
  "twoRowStatement =
     headerLine @ [10] @ statementRow (js ''OK'') @ [10] @ statementRow (js ''FAILED'') @ [10]"

text \<open>
  The store of the budget scenario: 4000 and 5000 spent from the daily pool in the
  period that starts on 23 November 2025, the latest transaction on its day 21, and
  next to them an income, an expense of the monthly pool, a filtered expense and an
  expense of the period before.
\<close>

definition scenarioStore :: transactionState where
  "scenarioStore =
     storeOf [expenseOn (dateAt 2025 12 13 10 30 0 0) (- 4000) Daily,
              incomeOn (dateAt 2025 12 10 9 0 0 0) 70000,
              expenseOn (dateAt 2025 12 1 18 0 0 0) (- 5000) Daily,
              expenseOn (dateAt 2025 11 10 12 0 0 0) (- 500) Daily,
              expenseOn (dateAt 2025 12 5 12 0 0 0) (- 1200) Monthly,
              (expenseOn (dateAt 2025 12 12 8 0 0 0) (- 333) Daily)
                 \<lparr> isFiltered := True, filterReason := Some (js ''deposit'') \<rparr>]"

text \<open>
  Three expenses of one period with the amounts 0.1, 0.1 and 1.1 as the language reads
  them, the first and the last from the daily pool; and four expenses with whole amounts.
\<close>

definition roundingStore :: transactionState where
  "roundingStore =
     storeOf [expenseOn (dateAt 2025 12 13 10 30 0 0) (- roundDouble (1 / 10)) Daily,
              expenseOn (dateAt 2025 12 14 9 0 0 0) (- roundDouble (1 / 10)) Monthly,
              expenseOn (dateAt 2025 12 15 9 0 0 0) (- roundDouble (11 / 10)) Daily]"

definition wholeStore :: transactionState where
  "wholeStore =
     storeOf [expenseOn (dateAt 2025 12 13 10 30 0 0) (- 9000) Daily,
              expenseOn (dateAt 2025 12 14 9 0 0 0) (- 1500) Monthly,
              expenseOn (dateAt 2025 12 15 9 0 0 0) (- 700) Mandatory,
              expenseOn (dateAt 2025 12 16 9 0 0 0) (- 300) Other]"

section \<open>Properties\<close>

subsection \<open>Keys are parsed back\<close>

lemma isDigit_digitChar: "d < 10 \<Longrightarrow> isDigit (digitChar d)"
  by (simp add: isDigit_def digitChar_def unat_of_nat del: of_nat_add)

lemma unat_digitChar: "d < 10 \<Longrightarrow> unat (digitChar d) = 48 + d"
  by (simp add: digitChar_def unat_of_nat del: of_nat_add)

lemma showNat_digits: "list_all isDigit (showNat n)"
proof (induction n rule: showNat.induct)
  case (1 n)
  show ?case
  proof (cases "n < 10")
    case True
    then show ?thesis by (subst showNat.simps) (simp add: isDigit_digitChar)
  next
    case False
    with 1 show ?thesis by (subst showNat.simps) (simp add: isDigit_digitChar)
  qed
qed

lemma digitsValue_snoc: "digitsValue (s @ [c]) = digitsValue s * 10 + (unat c - 48)"
  by (simp add: digitsValue_def)

lemma digitsValue_showNat: "digitsValue (showNat n) = n"
proof (induction n rule: showNat.induct)
  case (1 n)
  show ?case
  proof (cases "n < 10")
    case True
    then show ?thesis
      by (subst showNat.simps) (simp add: digitsValue_def unat_digitChar)
  next
    case False
    with 1 show ?thesis
      by (subst showNat.simps) (simp add: digitsValue_snoc unat_digitChar)
  qed
qed

lemma toNumber_showNat: "toNumber (showNat n) = Some (int n)"
  by (simp add: toNumber_def showNat_digits digitsValue_showNat)

lemma dash_not_digit: "\<not> isDigit ((45::jschar))"
  by (simp add: isDigit_def)

lemma digits_no_dash: "list_all isDigit s \<Longrightarrow> (45::jschar) \<notin> set s"
  using dash_not_digit by (auto simp: list_all_iff)

lemma splitOn_none: "sep \<notin> set s \<Longrightarrow> splitOn sep s = [s]"
  by (induction s) auto

lemma splitOn_append: "sep \<notin> set a \<Longrightarrow> splitOn sep (a @ sep # b) = a # splitOn sep b"
  by (induction a) auto

lemma padStart2_digits: "list_all isDigit s \<Longrightarrow> list_all isDigit (padStart2 s)"
  by (auto simp add: padStart2_def list_all_iff isDigit_def)

lemma digitsValue_zeros: "digitsValue (replicate k ((48::jschar)) @ s) = digitsValue s"
  by (induction k) (simp_all add: digitsValue_def)

lemma toNumber_padStart2: "toNumber (padStart2 (showNat n)) = Some (int n)"
proof -
  have "list_all isDigit (padStart2 (showNat n))"
    by (rule padStart2_digits [OF showNat_digits])
  moreover have "digitsValue (padStart2 (showNat n)) = n"
    by (simp add: padStart2_def digitsValue_zeros digitsValue_showNat)
  ultimately show ?thesis by (simp add: toNumber_def)
qed

lemma js_dash: "js ''-'' = [(45::jschar)]"
  by (simp add: js_def)

lemma key_parts_nonneg:
  assumes "0 \<le> y" "0 \<le> m"
  shows "map toNumber (splitOn ((45::jschar)) (showInt y @ js ''-'' @ padStart2 (showInt m)))
         = [Some y, Some m]"
proof -
  have a: "(45::jschar) \<notin> set (showNat (nat y))" by (rule digits_no_dash [OF showNat_digits])
  have b: "(45::jschar) \<notin> set (padStart2 (showNat (nat m)))"
    by (rule digits_no_dash [OF padStart2_digits [OF showNat_digits]])
  show ?thesis using assms
    by (simp add: showInt_def js_dash splitOn_append [OF a] splitOn_none [OF b]
        toNumber_showNat toNumber_padStart2)
qed

lemma key_parts_neg:
  assumes "y < 0" "0 \<le> m"
  shows "map toNumber (splitOn ((45::jschar)) (showInt y @ js ''-'' @ padStart2 (showInt m)))
         = [Some 0, Some (- y), Some m]"
proof -
  have a: "(45::jschar) \<notin> set (showNat (nat (- y)))" by (rule digits_no_dash [OF showNat_digits])
  have b: "(45::jschar) \<notin> set (padStart2 (showNat (nat m)))"
    by (rule digits_no_dash [OF padStart2_digits [OF showNat_digits]])
  have c: "toNumber [] = Some 0" by (simp add: toNumber_def digitsValue_def)
  show ?thesis using assms
    by (simp add: showInt_def js_dash splitOn_append [OF a] splitOn_none [OF b]
        toNumber_showNat toNumber_padStart2 c)
qed

subsection \<open>Day numbers\<close>

lemma div_step:
  fixes a k :: int
  assumes k: "0 < k"
  shows "(a + 1) div k = a div k + (if (a + 1) mod k = 0 then 1 else 0)"
proof (cases "(a + 1) mod k = 0")
  case True
  define q where "q = (a + 1) div k"
  have e: "a + 1 = k * q" using True mult_div_mod_eq [of k "a + 1"] by (simp add: q_def)
  have "a = k * (q - 1) + (k - 1)" using e by (simp add: algebra_simps)
  then have "a div k = q - 1" using k int_div_pos_eq [of a k "q - 1" "k - 1"] by simp
  then show ?thesis using True by (simp add: q_def)
next
  case False
  define q where "q = (a + 1) div k"
  define r where "r = (a + 1) mod k"
  have "0 \<le> (a + 1) mod k" "(a + 1) mod k < k" using k by simp_all
  then have r: "0 < r" "r < k" using False by (simp_all add: r_def)
  have "a + 1 = k * q + r" by (simp add: q_def r_def)
  then have "a = k * q + (r - 1)" by simp
  then have "a div k = q" using r int_div_pos_eq [of a k q "r - 1"] by simp
  then show ?thesis using False by (simp add: q_def)
qed

lemma mod_shift: 
  fixes y c k :: int
  assumes "c mod k = 0"
  shows "(y - c) mod k = 0 \<longleftrightarrow> y mod k = 0"
  using assms by (metis mod_0_imp_dvd dvd_diff dvd_eq_mod_eq_0 dvd_add_right_iff diff_add_cancel)


lemma dayFromYear_Suc: "dayFromYear (y + 1) = dayFromYear y + (if isLeap y then 366 else 365)"
proof -
  have a: "(y + 1 - 1969) div 4 = (y - 1969) div 4 + (if y mod 4 = 0 then 1 else 0)"
    using div_step [of 4 "y - 1969"] mod_shift [of 1968 4 y] by (simp add: algebra_simps)
  have b: "(y + 1 - 1901) div 100 = (y - 1901) div 100 + (if y mod 100 = 0 then 1 else 0)"
    using div_step [of 100 "y - 1901"] mod_shift [of 1900 100 y] by (simp add: algebra_simps)
  have c: "(y + 1 - 1601) div 400 = (y - 1601) div 400 + (if y mod 400 = 0 then 1 else 0)"
    using div_step [of 400 "y - 1601"] mod_shift [of 1600 400 y] by (simp add: algebra_simps)
  have "(100::int) dvd 400" by simp
  then have d: "y mod 400 = 0 \<Longrightarrow> y mod 100 = 0"
    using dvd_trans [of 100 400 y] by (simp add: mod_eq_0_iff_dvd)
  have "(4::int) dvd 100" by simp
  then have e: "y mod 100 = 0 \<Longrightarrow> y mod 4 = 0"
    using dvd_trans [of 4 100 y] by (simp add: mod_eq_0_iff_dvd)
  show ?thesis
  proof (cases "y mod 4 = 0")
    case False
    with d e show ?thesis unfolding dayFromYear_def isLeap_def a b c by auto
  next
    case y4: True
    show ?thesis
    proof (cases "y mod 100 = 0")
      case False
      with y4 d show ?thesis unfolding dayFromYear_def isLeap_def a b c by auto
    next
      case y100: True
      show ?thesis
      proof (cases "y mod 400 = 0")
        case False
        with y4 y100 show ?thesis unfolding dayFromYear_def isLeap_def a b c by simp
      next
        case True
        with y4 y100 show ?thesis unfolding dayFromYear_def isLeap_def a b c by simp
      qed
    qed
  qed
qed


lemma dayFromYear_mono_nat: "dayFromYear y + 365 * int n \<le> dayFromYear (y + int n)"
proof (induction n)
  case 0
  show ?case by simp
next
  case (Suc n)
  have "dayFromYear (y + int n) + 365 \<le> dayFromYear (y + int n + 1)"
    by (simp add: dayFromYear_Suc)
  with Suc show ?case by (simp add: add.assoc algebra_simps)
qed

lemma dayFromYear_less: "y < y' \<Longrightarrow> dayFromYear y + 365 * (y' - y) \<le> dayFromYear y'"
  using dayFromYear_mono_nat [of y "nat (y' - y)"] by simp

lemma month_cases:
  fixes m :: int
  assumes "0 \<le> m" "m \<le> 11"
  shows "m = 0 \<or> m = 1 \<or> m = 2 \<or> m = 3 \<or> m = 4 \<or> m = 5 \<or> m = 6 \<or> m = 7
         \<or> m = 8 \<or> m = 9 \<or> m = 10 \<or> m = 11"
  using assms by arith

lemma daysBeforeMonth_next:
  assumes "0 \<le> m" "m < 11"
  shows "daysBeforeMonth y (m + 1) = daysBeforeMonth y m + monthLength y m"
proof -
  have "m = 0 \<or> m = 1 \<or> m = 2 \<or> m = 3 \<or> m = 4 \<or> m = 5 \<or> m = 6 \<or> m = 7
         \<or> m = 8 \<or> m = 9 \<or> m = 10"
    using assms by arith
  then show ?thesis
    by (elim disjE) (simp_all add: daysBeforeMonth_def monthLength_def)
qed

lemma daysBeforeMonth_nonneg: "0 \<le> daysBeforeMonth y m"
  by (simp add: daysBeforeMonth_def)

lemma daysBeforeMonth_upper:
  assumes "0 \<le> m" "m \<le> 11"
  shows "daysBeforeMonth y m + monthLength y m \<le> (if isLeap y then 366 else 365)"
proof -
  have "m = 0 \<or> m = 1 \<or> m = 2 \<or> m = 3 \<or> m = 4 \<or> m = 5 \<or> m = 6 \<or> m = 7
         \<or> m = 8 \<or> m = 9 \<or> m = 10 \<or> m = 11"
    using assms by (rule month_cases)
  then show ?thesis
    by (elim disjE) (simp_all add: daysBeforeMonth_def monthLength_def)
qed

lemma dayNumber_lower: "validDate d \<Longrightarrow> dayFromYear (getFullYear d) \<le> dayNumber d"
  using daysBeforeMonth_nonneg [of "getFullYear d" "getMonth d"]
  by (simp add: validDate_def dayNumber_def)

lemma dayNumber_upper: "validDate d \<Longrightarrow> dayNumber d < dayFromYear (getFullYear d + 1)"
  using daysBeforeMonth_upper [of "getMonth d" "getFullYear d"]
  by (simp add: validDate_def dayNumber_def dayFromYear_Suc split: if_splits)

lemma timeInDay_range: "validDate d \<Longrightarrow> 0 \<le> timeInDay d \<and> timeInDay d < msPerDay"
  by (simp add: validDate_def timeInDay_def msPerDay_def)

lemma div_days:
  assumes "0 \<le> t" "t < msPerDay"
  shows "(a * msPerDay + t - b * msPerDay) div msPerDay = a - b"
proof -
  have "a * msPerDay + t - b * msPerDay = msPerDay * (a - b) + t" by (simp add: algebra_simps)
  then show ?thesis
    using assms int_div_pos_eq [of "a * msPerDay + t - b * msPerDay" msPerDay "a - b" t]
    by simp
qed

subsection \<open>The range of a key\<close>

lemma getSalaryMonthKey_cases:
  "getSalaryMonthKey d =
     (if getDate d < 23
      then (if getMonth d < 1 then keyOf (getFullYear d - 1) 12
            else keyOf (getFullYear d) (getMonth d))
      else keyOf (getFullYear d) (getMonth d + 1))"
  by (simp add: getSalaryMonthKey_def SALARY_DAY_def keyOf_def Let_def)

lemma range_nonneg:
  assumes "0 \<le> y" "1 \<le> m" "m \<le> 12"
  shows "getSalaryMonthRange (keyOf y m) =
     \<lparr> rangeStart = Some (newDate y (m - 1) 23 0 0 0),
       rangeEnd = Some (if m = 12 then newDate (y + 1) 0 22 23 59 59
                        else newDate y m 22 23 59 59) \<rparr>"
  using assms key_parts_nonneg [of y m]
  by (simp add: getSalaryMonthRange_def keyOf_def SALARY_DAY_def Let_def)

lemma range_neg:
  assumes "y < 0" "1 \<le> m" "m \<le> 12"
  shows "getSalaryMonthRange (keyOf y m) =
     \<lparr> rangeStart = Some (newDate 0 (- y - 1) 23 0 0 0),
       rangeEnd = Some (if - y + 1 > 12 then newDate 1 0 22 23 59 59
                        else newDate 0 (- y) 22 23 59 59) \<rparr>"
  using assms key_parts_neg [of y m]
  by (simp add: getSalaryMonthRange_def keyOf_def SALARY_DAY_def Let_def)

lemma fullYear_ge: "y \<le> fullYear y"
  by (simp add: fullYear_def)

lemma newDate_fields:
  assumes "0 \<le> m" "m \<le> 11"
  shows "getFullYear (newDate y m d h mi s) = fullYear y"
    and "getMonth (newDate y m d h mi s) = m"
    and "getDate (newDate y m d h mi s) = d"
  using assms by (simp_all add: newDate_def fullYear_def Let_def)

lemma timeInDay_newDate: "timeInDay (newDate y m d h mi s) = h * 3600000 + mi * 60000 + s * 1000"
  by (simp add: newDate_def timeInDay_def Let_def)

lemma dayFromYear_mono: "y \<le> y' \<Longrightarrow> dayFromYear y \<le> dayFromYear y'"
  using dayFromYear_less [of y y'] by (cases "y = y'") auto

lemma later_year:
  assumes "validDate d" "getFullYear d < getFullYear e" "1 \<le> getDate e"
  shows "dayNumber d < dayNumber e"
proof -
  have "dayNumber d < dayFromYear (getFullYear d + 1)" using assms(1) by (rule dayNumber_upper)
  also have "\<dots> \<le> dayFromYear (getFullYear e)" using assms(2) by (intro dayFromYear_mono) simp
  also have "\<dots> \<le> dayNumber e"
    using daysBeforeMonth_nonneg [of "getFullYear e" "getMonth e"] assms(3)
    by (simp add: dayNumber_def)
  finally show ?thesis .
qed

lemma end_later_year:
  assumes "validDate d" "getFullYear d < fullYear ey" "0 \<le> em" "em \<le> 11"
  shows "dayNumber d \<le> dayNumber (newDate ey em 22 23 59 59)"
  using later_year [of d "newDate ey em 22 23 59 59"] assms
  by (simp add: newDate_fields)

lemma end_same_month:
  assumes "validDate d" "getFullYear d = fullYear ey" "getMonth d = em" "getDate d \<le> 22"
  shows "dayNumber d \<le> dayNumber (newDate ey em 22 23 59 59)"
  using assms by (simp add: dayNumber_def newDate_fields validDate_def)

lemma end_next_month:
  assumes "validDate d" "getFullYear d = fullYear ey" "getMonth d + 1 = em" "em \<le> 11"
  shows "dayNumber d \<le> dayNumber (newDate ey em 22 23 59 59)"
proof -
  have "daysBeforeMonth (getFullYear d) (getMonth d + 1)
        = daysBeforeMonth (getFullYear d) (getMonth d) + monthLength (getFullYear d) (getMonth d)"
    using assms by (intro daysBeforeMonth_next) (simp_all add: validDate_def)
  then show ?thesis using assms
    by (simp add: dayNumber_def newDate_fields validDate_def)
qed

lemma end_cases:
  assumes "validDate d" "0 \<le> em" "em \<le> 11"
    and "getFullYear d < fullYear ey
         \<or> (getFullYear d = fullYear ey \<and> getMonth d = em \<and> getDate d \<le> 22)
         \<or> (getFullYear d = fullYear ey \<and> getMonth d + 1 = em)"
  shows "dayNumber d \<le> dayNumber (newDate ey em 22 23 59 59)"
  using assms end_later_year [of d ey em] end_same_month [of d ey em] end_next_month [of d ey em]
  by blast

lemma goodRangeI:
  assumes "r = \<lparr> rangeStart = Some (newDate sy sm 23 0 0 0),
                 rangeEnd = Some (newDate ey em 22 23 59 59) \<rparr>"
    and "dayNumber d \<le> dayNumber (newDate ey em 22 23 59 59)"
  shows "goodRange d r"
  unfolding goodRange_def using assms
  by (intro exI [of _ "newDate sy sm 23 0 0 0"] exI [of _ "newDate ey em 22 23 59 59"])
     (simp add: timeInDay_newDate msPerDay_def)

lemma fullYear_small: "fullYear 0 = 1900" "fullYear 1 = 1901"
  by (simp_all add: fullYear_def)

lemma goodRange_neg:
  assumes v: "validDate d" and y: "y < 0" "getFullYear d \<le> y + 1" and m: "1 \<le> m" "m \<le> 12"
  shows "goodRange d (getSalaryMonthRange (keyOf y m))"
proof (cases "- y + 1 > 12")
  case True
  have "dayNumber d \<le> dayNumber (newDate 1 0 22 23 59 59)"
    using v y by (intro end_later_year) (simp_all add: fullYear_small)
  then show ?thesis using True y m
    by (intro goodRangeI [of _ 0 "- y - 1" 1 0]) (simp_all add: range_neg)
next
  case False
  have "dayNumber d \<le> dayNumber (newDate 0 (- y) 22 23 59 59)"
    using v y False by (intro end_later_year) (simp_all add: fullYear_small)
  then show ?thesis using False y m
    by (intro goodRangeI [of _ 0 "- y - 1" 0 "- y"]) (simp_all add: range_neg)
qed

lemma goodRange_nonneg:
  assumes v: "validDate d" and y: "0 \<le> y" and m: "1 \<le> m" "m \<le> 12"
    and rel: "(getFullYear d = y \<and> getMonth d + 1 = m)
              \<or> (m < 12 \<and> getFullYear d = y \<and> getMonth d = m \<and> getDate d \<le> 22)
              \<or> (m = 12 \<and> getFullYear d = y + 1 \<and> getMonth d = 0 \<and> getDate d \<le> 22)"
  shows "goodRange d (getSalaryMonthRange (keyOf y m))"
proof (cases "m = 12")
  case True
  have "dayNumber d \<le> dayNumber (newDate (y + 1) 0 22 23 59 59)"
    using v rel True fullYear_ge [of "y + 1"] by (intro end_cases) auto
  then show ?thesis using True y m
    by (intro goodRangeI [of _ y "m - 1" "y + 1" 0]) (simp_all add: range_nonneg)
next
  case False
  have "dayNumber d \<le> dayNumber (newDate y m 22 23 59 59)"
    using v rel False m fullYear_ge [of y] by (intro end_cases) auto
  then show ?thesis using False y m
    by (intro goodRangeI [of _ y "m - 1" y m]) (simp_all add: range_nonneg)
qed

lemma goodRange_key:
  assumes v: "validDate d"
  shows "goodRange d (getSalaryMonthRange (getSalaryMonthKey d))"
proof -
  have m: "0 \<le> getMonth d" "getMonth d \<le> 11" and dt: "1 \<le> getDate d"
    using v by (simp_all add: validDate_def)
  consider (prevYear) "getDate d < 23" "getMonth d = 0"
    | (prevMonth) "getDate d < 23" "1 \<le> getMonth d"
    | (thisMonth) "23 \<le> getDate d"
    using m by linarith
  then show ?thesis
  proof cases
    case prevYear
    then have k: "getSalaryMonthKey d = keyOf (getFullYear d - 1) 12"
      by (simp add: getSalaryMonthKey_cases)
    show ?thesis
    proof (cases "0 \<le> getFullYear d - 1")
      case True
      then show ?thesis unfolding k using v prevYear
        by (intro goodRange_nonneg) simp_all
    next
      case False
      then show ?thesis unfolding k using v
        by (intro goodRange_neg) simp_all
    qed
  next
    case prevMonth
    then have k: "getSalaryMonthKey d = keyOf (getFullYear d) (getMonth d)"
      by (simp add: getSalaryMonthKey_cases)
    show ?thesis
    proof (cases "0 \<le> getFullYear d")
      case True
      then show ?thesis unfolding k using v prevMonth m
        by (intro goodRange_nonneg) simp_all
    next
      case False
      then show ?thesis unfolding k using v prevMonth m
        by (intro goodRange_neg) simp_all
    qed
  next
    case thisMonth
    then have k: "getSalaryMonthKey d = keyOf (getFullYear d) (getMonth d + 1)"
      by (simp add: getSalaryMonthKey_cases)
    show ?thesis
    proof (cases "0 \<le> getFullYear d")
      case True
      then show ?thesis unfolding k using v m
        by (intro goodRange_nonneg) simp_all
    next
      case False
      then show ?thesis unfolding k using v m
        by (intro goodRange_neg) simp_all
    qed
  qed
qed

lemma getTime_diff_days:
  assumes "timeInDay s = 0" "0 \<le> timeInDay d" "timeInDay d < msPerDay"
  shows "(getTime d - getTime s) div msPerDay = dayNumber d - dayNumber s"
  using div_days [of "timeInDay d" "dayNumber d" "dayNumber s"] assms
  by (simp add: getTime_def)

lemma day_counts:
  assumes v: "validDate d"
  shows "\<exists>n c. getSalaryMonthDays (getSalaryMonthKey d) = Some n
               \<and> getSalaryMonthDay d = Some c \<and> c \<le> n"
proof -
  obtain s e where r: "getSalaryMonthRange (getSalaryMonthKey d)
        = \<lparr> rangeStart = Some s, rangeEnd = Some e \<rparr>"
    and s: "timeInDay s = 0" and e: "timeInDay e = msPerDay - 1000"
    and le: "dayNumber d \<le> dayNumber e"
    using goodRange_key [OF v] unfolding goodRange_def by blast
  have "(getTime d - getTime s) div msPerDay = dayNumber d - dayNumber s"
    using s timeInDay_range [OF v] by (intro getTime_diff_days) simp_all
  then have c: "getSalaryMonthDay d = Some (dayNumber d - dayNumber s + 1)"
    by (simp add: getSalaryMonthDay_def r Let_def)
  have "(getTime e - getTime s) div msPerDay = dayNumber e - dayNumber s"
    using s e by (intro getTime_diff_days) (simp_all add: msPerDay_def)
  then have n: "getSalaryMonthDays (getSalaryMonthKey d) = Some (dayNumber e - dayNumber s + 1)"
    by (simp add: getSalaryMonthDays_def r Let_def)
  show ?thesis using c n le by simp
qed

lemma latestOf_mem: "latestOf first rest \<in> set (first # rest)"
proof (induction rest arbitrary: first)
  case Nil
  show ?case by (simp add: latestOf_def)
next
  case (Cons x xs)
  have "latestOf first (x # xs)
        = latestOf (if getTime (txDate x) > getTime (txDate first) then x else first) xs"
    by (simp add: latestOf_def)
  then show ?case using Cons [of x] Cons [of first] by auto
qed

lemma latestDate_valid:
  assumes "validDate now" "\<forall>tx \<in> set (transactions st). validDate (txDate tx)"
  shows "validDate (latestDate now st)"
proof (cases "getFilteredTransactions st")
  case Nil
  then show ?thesis using assms by (simp add: latestDate_def)
next
  case (Cons first rest)
  have "latestOf first rest \<in> set (getFilteredTransactions st)"
    using latestOf_mem [of first rest] Cons by simp
  then have "latestOf first rest \<in> set (transactions st)"
    by (simp add: getFilteredTransactions_def)
  then show ?thesis using assms Cons by (simp add: latestDate_def)
qed

lemma latestOf_max:
  "\<forall>tx \<in> set (first # rest). getTime (txDate tx) \<le> getTime (txDate (latestOf first rest))"
proof (induction rest arbitrary: first)
  case Nil
  show ?case by (simp add: latestOf_def)
next
  case (Cons x xs)
  let ?f = "if getTime (txDate x) > getTime (txDate first) then x else first"
  have u: "latestOf first (x # xs) = latestOf ?f xs"
    by (simp add: latestOf_def)
  have ih: "\<forall>tx \<in> set (?f # xs). getTime (txDate tx) \<le> getTime (txDate (latestOf ?f xs))"
    by (rule Cons.IH)
  then have f: "getTime (txDate ?f) \<le> getTime (txDate (latestOf ?f xs))" by simp
  have "getTime (txDate first) \<le> getTime (txDate ?f)" "getTime (txDate x) \<le> getTime (txDate ?f)"
    by simp_all
  then have "getTime (txDate first) \<le> getTime (txDate (latestOf ?f xs))"
    "getTime (txDate x) \<le> getTime (txDate (latestOf ?f xs))"
    using f by linarith+
  then show ?case unfolding u using ih by simp
qed

lemma latestDate_empty: "getFilteredTransactions st = [] \<Longrightarrow> latestDate now st = now"
  by (simp add: latestDate_def)

lemma latestDate_max:
  "\<forall>tx \<in> set (getFilteredTransactions st). getTime (txDate tx) \<le> getTime (latestDate now st)"
proof (cases "getFilteredTransactions st")
  case Nil
  then show ?thesis by simp
next
  case (Cons first rest)
  then show ?thesis using latestOf_max [of first rest] by (simp add: latestDate_def)
qed

lemma latestDate_mem:
  "getFilteredTransactions st \<noteq> [] \<Longrightarrow>
     latestDate now st \<in> txDate ` set (getFilteredTransactions st)"
proof (cases "getFilteredTransactions st")
  case Nil
  assume "getFilteredTransactions st \<noteq> []"
  then show ?thesis using Nil by simp
next
  case (Cons first rest)
  have "latestOf first rest \<in> set (first # rest)" by (rule latestOf_mem)
  then have "txDate (latestOf first rest) \<in> txDate ` set (first # rest)" by (rule imageI)
  then show ?thesis using Cons by (simp add: latestDate_def)
qed

lemma stats_inputs:
  "statsDailyPoolSpent (getCurrentMonthStats now st) =
     sumAbs (filter (\<lambda>t. pool t = Daily)
       (filter (\<lambda>tx. isInSalaryMonth (txDate tx) (currentMonth (getCurrentMonthStats now st))
                      \<and> txType tx = Expense)
          (getFilteredTransactions st)))"
  by (simp add: getCurrentMonthStats_def Let_def del: filter_filter)

lemma stats_fields:
  "daysInMonth (getCurrentMonthStats now st) = getSalaryMonthDays (getSalaryMonthKey (latestDate now st))"
  "currentDay (getCurrentMonthStats now st) = getSalaryMonthDay (latestDate now st)"
  "currentMonth (getCurrentMonthStats now st) = getSalaryMonthKey (latestDate now st)"
  "daysRemaining (getCurrentMonthStats now st) =
     (case (daysInMonth (getCurrentMonthStats now st), currentDay (getCurrentMonthStats now st)) of
        (Some n, Some c) \<Rightarrow> Some (n - c + 1) | _ \<Rightarrow> None)"
  by (simp_all add: getCurrentMonthStats_def latestDate_def Let_def)

lemma stats_dailyBudget:
  assumes "daysInMonth (getCurrentMonthStats now st) = Some n"
    and "daysRemaining (getCurrentMonthStats now st) = Some r"
  shows "dailyBudget (getCurrentMonthStats now st) =
           mathMax0 (jsDivide (subNumber (mulNumber (dailyTarget (budget st)) (of_int n))
                                 (statsDailyPoolSpent (getCurrentMonthStats now st))) r)"
  using assms by (simp add: getCurrentMonthStats_def latestDate_def Let_def)

lemma stats_days:
  assumes "validDate now" "\<forall>tx \<in> set (transactions st). validDate (txDate tx)"
  shows "\<exists>n c. daysInMonth (getCurrentMonthStats now st) = Some n
               \<and> currentDay (getCurrentMonthStats now st) = Some c
               \<and> daysRemaining (getCurrentMonthStats now st) = Some (n - c + 1)
               \<and> c \<le> n"
proof -
  obtain n c where "getSalaryMonthDays (getSalaryMonthKey (latestDate now st)) = Some n"
     "getSalaryMonthDay (latestDate now st) = Some c" "c \<le> n"
    using day_counts [OF latestDate_valid [OF assms]] by blast
  then show ?thesis
    by (simp add: stats_fields)
qed

lemma mathMax0_nonneg: "mathMax0 z \<noteq> NegInfinity \<and> (mathMax0 z = Finite x \<longrightarrow> 0 \<le> x)"
  by (cases z) auto

lemma dailyBudget_nonneg:
  "dailyBudget (getCurrentMonthStats now st) \<noteq> NegInfinity
   \<and> (dailyBudget (getCurrentMonthStats now st) = Finite x \<longrightarrow> 0 \<le> x)"
proof (cases "daysInMonth (getCurrentMonthStats now st)")
  case None
  then show ?thesis by (simp add: getCurrentMonthStats_def Let_def)
next
  case n: (Some n)
  show ?thesis
  proof (cases "daysRemaining (getCurrentMonthStats now st)")
    case None
    then show ?thesis using n by (simp add: getCurrentMonthStats_def Let_def)
  next
    case (Some r)
    show ?thesis unfolding stats_dailyBudget [OF n Some] by (rule mathMax0_nonneg)
  qed
qed

subsection \<open>Dates within their period\<close>

lemma monthLength_ge: "28 \<le> monthLength y m"
  by (simp add: monthLength_def)

lemma start_same_month:
  assumes "getFullYear d = fullYear sy" "getMonth d = sm" "0 \<le> sm" "sm \<le> 11" "23 \<le> getDate d"
  shows "dayNumber (newDate sy sm 23 0 0 0) \<le> dayNumber d"
  using assms by (simp add: dayNumber_def newDate_fields)

lemma start_prev_month:
  assumes "getFullYear d = fullYear sy" "getMonth d = sm + 1" "0 \<le> sm" "sm < 11" "1 \<le> getDate d"
  shows "dayNumber (newDate sy sm 23 0 0 0) \<le> dayNumber d"
proof -
  have "daysBeforeMonth (fullYear sy) (sm + 1)
        = daysBeforeMonth (fullYear sy) sm + monthLength (fullYear sy) sm"
    using assms by (intro daysBeforeMonth_next) simp_all
  then show ?thesis
    using assms monthLength_ge [of "fullYear sy" sm] by (simp add: dayNumber_def newDate_fields)
qed

lemma start_prev_year:
  assumes "getFullYear d = fullYear sy + 1" "0 \<le> getMonth d" "1 \<le> getDate d"
  shows "dayNumber (newDate sy 11 23 0 0 0) \<le> dayNumber d"
proof -
  have "dayNumber (newDate sy 11 23 0 0 0) \<le> dayFromYear (fullYear sy) + 365"
    by (simp add: dayNumber_def newDate_fields daysBeforeMonth_def)
  also have "\<dots> \<le> dayFromYear (fullYear sy + 1)" by (simp add: dayFromYear_Suc)
  also have "\<dots> \<le> dayNumber d"
    using assms daysBeforeMonth_nonneg [of "getFullYear d" "getMonth d"]
    by (simp add: dayNumber_def)
  finally show ?thesis .
qed

lemma fullYear_modern: "100 \<le> y \<Longrightarrow> fullYear y = y"
  by (simp add: fullYear_def)

lemma start_of_key:
  assumes v: "validDate d" and y: "101 \<le> getFullYear d"
  shows "\<exists>s. rangeStart (getSalaryMonthRange (getSalaryMonthKey d)) = Some s
             \<and> timeInDay s = 0 \<and> dayNumber s \<le> dayNumber d"
proof -
  have m: "0 \<le> getMonth d" "getMonth d \<le> 11" and dt: "1 \<le> getDate d"
    using v by (simp_all add: validDate_def)
  consider (prevYear) "getDate d < 23" "getMonth d = 0"
    | (prevMonth) "getDate d < 23" "1 \<le> getMonth d"
    | (thisMonth) "23 \<le> getDate d"
    using m by linarith
  then show ?thesis
  proof cases
    case prevYear
    then have k: "getSalaryMonthKey d = keyOf (getFullYear d - 1) 12"
      by (simp add: getSalaryMonthKey_cases)
    have "dayNumber (newDate (getFullYear d - 1) 11 23 0 0 0) \<le> dayNumber d"
      using y m dt by (intro start_prev_year) (simp_all add: fullYear_modern)
    then show ?thesis unfolding k using y
      by (simp add: range_nonneg timeInDay_newDate)
  next
    case prevMonth
    then have k: "getSalaryMonthKey d = keyOf (getFullYear d) (getMonth d)"
      by (simp add: getSalaryMonthKey_cases)
    have "dayNumber (newDate (getFullYear d) (getMonth d - 1) 23 0 0 0) \<le> dayNumber d"
      using y m dt prevMonth by (intro start_prev_month) (simp_all add: fullYear_modern)
    then show ?thesis unfolding k using y m prevMonth
      by (simp add: range_nonneg timeInDay_newDate)
  next
    case thisMonth
    then have k: "getSalaryMonthKey d = keyOf (getFullYear d) (getMonth d + 1)"
      by (simp add: getSalaryMonthKey_cases)
    have "dayNumber (newDate (getFullYear d) (getMonth d) 23 0 0 0) \<le> dayNumber d"
      using y m thisMonth by (intro start_same_month) (simp_all add: fullYear_modern)
    then show ?thesis unfolding k using y m
      by (simp add: range_nonneg timeInDay_newDate)
  qed
qed

text \<open>
  From the year 101 on, a date with a whole number of seconds lies in the range of its
  own key, and its day index is between 1 and the length of the period.
\<close>

lemma salary_month_whole_seconds:
  assumes v: "validDate d" and y: "101 \<le> getFullYear d" and ms: "getMilliseconds d = 0"
  shows "isInSalaryMonth d (getSalaryMonthKey d)
         \<and> (\<exists>n c. getSalaryMonthDays (getSalaryMonthKey d) = Some n
                  \<and> getSalaryMonthDay d = Some c \<and> 1 \<le> c \<and> c \<le> n)"
proof -
  obtain s e where r: "getSalaryMonthRange (getSalaryMonthKey d)
        = \<lparr> rangeStart = Some s, rangeEnd = Some e \<rparr>"
    and s: "timeInDay s = 0" and e: "timeInDay e = msPerDay - 1000"
    and le: "dayNumber d \<le> dayNumber e"
    using goodRange_key [OF v] unfolding goodRange_def by blast
  obtain s' where "rangeStart (getSalaryMonthRange (getSalaryMonthKey d)) = Some s'"
    and "dayNumber s' \<le> dayNumber d"
    using start_of_key [OF v y] by blast
  then have ge: "dayNumber s \<le> dayNumber d" by (simp add: r)
  have t: "0 \<le> timeInDay d" "timeInDay d < msPerDay" using timeInDay_range [OF v] by simp_all
  have t': "timeInDay d \<le> msPerDay - 1000"
    using v ms by (simp add: validDate_def timeInDay_def msPerDay_def)
  have d1: "(getTime d - getTime s) div msPerDay = dayNumber d - dayNumber s"
    using s t by (intro getTime_diff_days) simp_all
  have d2: "(getTime e - getTime s) div msPerDay = dayNumber e - dayNumber s"
    using s e by (intro getTime_diff_days) (simp_all add: msPerDay_def)
  have p: "0 < msPerDay" by (simp add: msPerDay_def)
  have a: "getTime s \<le> getTime d"
  proof -
    have "dayNumber s * msPerDay \<le> dayNumber d * msPerDay"
      using ge p by (simp add: mult_right_mono)
    then show ?thesis unfolding getTime_def using s t by linarith
  qed
  have b: "getTime d \<le> getTime e"
  proof -
    have "dayNumber d * msPerDay \<le> dayNumber e * msPerDay"
      using le p by (simp add: mult_right_mono)
    then show ?thesis unfolding getTime_def using e t' by linarith
  qed
  have "isInSalaryMonth d (getSalaryMonthKey d)"
    using a b by (simp add: isInSalaryMonth_def r)
  moreover have "getSalaryMonthDay d = Some (dayNumber d - dayNumber s + 1)"
    using d1 by (simp add: getSalaryMonthDay_def r Let_def)
  moreover have "getSalaryMonthDays (getSalaryMonthKey d) = Some (dayNumber e - dayNumber s + 1)"
    using d2 by (simp add: getSalaryMonthDays_def r Let_def)
  ultimately show ?thesis using ge le by simp
qed

subsection \<open>Whole numbers are not rounded\<close>

lemma roundEven_of_int: "roundEven (of_int z) = z"
  by (simp add: roundEven_def)

lemma bitLength_nonpos: "n \<le> 0 \<Longrightarrow> bitLength n = 0"
  by (subst bitLength.simps) simp

lemma bitLength_pos: "0 < n \<Longrightarrow> bitLength n = 1 + bitLength (n div 2)"
  by (subst bitLength.simps) simp

lemma bitLength_le: "n < 2 ^ k \<Longrightarrow> bitLength n \<le> int k"
proof (induction k arbitrary: n)
  case 0
  then show ?case by (simp add: bitLength_nonpos)
next
  case (Suc k)
  show ?case
  proof (cases "0 < n")
    case False
    then show ?thesis by (simp add: bitLength_nonpos)
  next
    case True
    have "n div 2 < 2 ^ k" using Suc.prems by simp
    then have "bitLength (n div 2) \<le> int k" by (rule Suc.IH)
    then show ?thesis using True by (simp add: bitLength_pos)
  qed
qed

lemma bitLength_nonneg: "0 \<le> bitLength m"
proof (induction m rule: bitLength.induct)
  case (1 m)
  show ?case
  proof (cases "m \<le> 0")
    case True
    then show ?thesis by (simp add: bitLength_nonpos)
  next
    case False
    then show ?thesis using 1 by (simp add: bitLength_pos)
  qed
qed

lemma bitLength_ge: "0 < n \<Longrightarrow> 1 \<le> bitLength n"
  using bitLength_nonneg [of "n div 2"] by (simp add: bitLength_pos)

lemma roundDouble_of_int:
  assumes "\<bar>n\<bar> < 2 ^ 53"
  shows "roundDouble (of_int n) = of_int n"
proof (cases "n = 0")
  case True
  then show ?thesis by (simp add: roundDouble_def)
next
  case False
  define a where "a = \<bar>n\<bar>"
  have a: "1 \<le> a" "a < 2 ^ 53" using False assms by (simp_all add: a_def)
  define e where "e = bitLength a - 1"
  have e: "0 \<le> e" "e \<le> 52"
    using bitLength_ge [of a] bitLength_le [of a 53] a by (simp_all add: e_def)
  define k where "k = nat (52 - e)"
  have be: "binaryExponent \<bar>of_int n\<bar> = e"
  proof -
    have "\<bar>of_int n :: real\<bar> = of_int a" by (simp add: a_def)
    moreover have "(1::real) \<le> of_int a" using a by simp
    ultimately show ?thesis by (simp add: binaryExponent_def e_def)
  qed
  have ulp: "pow2 (e - 52) = 1 / 2 ^ k"
  proof (cases "e = 52")
    case True
    then show ?thesis by (simp add: pow2_def k_def)
  next
    case False
    then have "e - 52 < 0" using e by simp
    then show ?thesis by (simp add: pow2_def k_def)
  qed
  have q: "\<bar>of_int n :: real\<bar> / pow2 (e - 52) = of_int (a * 2 ^ k)"
    by (simp add: ulp a_def)
  have "roundDouble (of_int n)
        = sgn (of_int n) * (of_int (roundEven (\<bar>of_int n\<bar> / pow2 (e - 52))) * pow2 (e - 52))"
    using False unfolding roundDouble_def Let_def be by simp
  also have "\<dots> = sgn (of_int n) * (of_int (a * 2 ^ k) * (1 / 2 ^ k))"
    by (simp only: q roundEven_of_int, simp only: ulp)
  also have "\<dots> = sgn (of_int n :: real) * of_int a" by simp
  also have "\<dots> = of_int n" by (simp add: a_def sgn_if)
  finally show ?thesis .
qed

lemma isWhole_iff: "isWhole x \<longleftrightarrow> (\<exists>n. x = of_int n)"
proof
  assume "isWhole x"
  then have "x = of_int \<lfloor>x\<rfloor>" unfolding isWhole_def by (rule sym)
  then show "\<exists>n. x = of_int n" by (rule exI)
next
  assume "\<exists>n. x = of_int n"
  then obtain n where "x = of_int n" by (rule exE)
  then show "isWhole x" unfolding isWhole_def by simp
qed

lemma roundDouble_whole:
  assumes "isWhole x" "\<bar>x\<bar> \<le> maxSafeInteger"
  shows "roundDouble x = x"
proof -
  obtain n where x: "x = of_int n" using assms(1) unfolding isWhole_iff by (rule exE)
  have "\<bar>of_int n :: real\<bar> \<le> 9007199254740991"
    using assms(2) x by (simp add: maxSafeInteger_def)
  then have "\<bar>n\<bar> \<le> 9007199254740991" by linarith
  then have "\<bar>n\<bar> < 2 ^ 53" by simp
  then have "roundDouble (of_int n) = of_int n" by (rule roundDouble_of_int)
  then show ?thesis using x by simp
qed

lemma isWhole_add: "isWhole x \<Longrightarrow> isWhole y \<Longrightarrow> isWhole (x + y)"
proof -
  assume "isWhole x" "isWhole y"
  then obtain m n where "x = of_int m" "y = of_int n" unfolding isWhole_iff by blast
  then have "x + y = of_int (m + n)" by simp
  then show ?thesis unfolding isWhole_iff by (rule exI)
qed

lemma isWhole_abs: "isWhole x \<Longrightarrow> isWhole \<bar>x\<bar>"
proof -
  assume "isWhole x"
  then obtain n where "x = of_int n" unfolding isWhole_iff by blast
  then have "\<bar>x\<bar> = of_int \<bar>n\<bar>" by simp
  then show ?thesis unfolding isWhole_iff by (rule exI)
qed

lemma isWhole_zero: "isWhole 0"
  by (simp add: isWhole_def)

subsection \<open>The error of a rounding\<close>

lemma pow2_powi: "pow2 k = 2 powi k"
  by (simp add: pow2_def power_int_def field_simps)

lemma bitLength_lower: "0 < n \<Longrightarrow> 2 ^ nat (bitLength n - 1) \<le> n"
proof (induction n rule: bitLength.induct)
  case (1 n)
  show ?case
  proof (cases "n = 1")
    case True
    then show ?thesis by (simp add: bitLength_pos bitLength_nonpos)
  next
    case False
    then have h: "0 < n div 2" using 1(2) by simp
    have ih: "2 ^ nat (bitLength (n div 2) - 1) \<le> n div 2"
      using 1(1) 1(2) h by simp
    have g: "1 \<le> bitLength (n div 2)" using h by (rule bitLength_ge)
    have "nat (bitLength n - 1) = Suc (nat (bitLength (n div 2) - 1))"
      using g 1(2) by (simp add: bitLength_pos)
    then have "(2::int) ^ nat (bitLength n - 1) = 2 * 2 ^ nat (bitLength (n div 2) - 1)"
      by simp
    also have "\<dots> \<le> 2 * (n div 2)" using ih by simp
    also have "\<dots> \<le> n" by simp
    finally show ?thesis .
  qed
qed

lemma bitLength_upper: "n < 2 ^ nat (bitLength n)"
proof (induction n rule: bitLength.induct)
  case (1 n)
  show ?case
  proof (cases "n \<le> 0")
    case True
    then show ?thesis by (simp add: bitLength_nonpos)
  next
    case False
    then have ih: "n div 2 < 2 ^ nat (bitLength (n div 2))" using 1 by simp
    have "nat (bitLength n) = Suc (nat (bitLength (n div 2)))"
      using False bitLength_nonneg [of "n div 2"] by (simp add: bitLength_pos)
    then have "(2::int) ^ nat (bitLength n) = 2 * 2 ^ nat (bitLength (n div 2))" by simp
    moreover have "n < 2 * (n div 2 + 1)" by simp
    ultimately show ?thesis using ih by linarith
  qed
qed

lemma binaryExponent_bounds:
  assumes "0 < a"
  shows "pow2 (binaryExponent a) \<le> a" and "a < pow2 (binaryExponent a + 1)"
proof -
  have "pow2 (binaryExponent a) \<le> a \<and> a < pow2 (binaryExponent a + 1)"
  proof (cases "1 \<le> a")
    case True
    define n where "n = \<lfloor>a\<rfloor>"
    have n: "1 \<le> n" using True by (simp add: n_def le_floor_iff)
    have g: "1 \<le> bitLength n" using n by (simp add: bitLength_ge)
    have e: "binaryExponent a = bitLength n - 1" using True by (simp add: binaryExponent_def n_def)
    have "(2::int) ^ nat (bitLength n - 1) \<le> n" using n by (simp add: bitLength_lower)
    then have "real_of_int (2 ^ nat (bitLength n - 1)) \<le> of_int n" by (simp only: of_int_le_iff)
    also have "\<dots> \<le> a" by (simp add: n_def)
    finally have l: "pow2 (binaryExponent a) \<le> a" using g by (simp add: e pow2_def)
    have "n + 1 \<le> 2 ^ nat (bitLength n)" using bitLength_upper [of n] by simp
    then have "real_of_int (n + 1) \<le> of_int (2 ^ nat (bitLength n))" by (simp only: of_int_le_iff)
    moreover have "a < of_int (n + 1)" by (simp add: n_def)
    ultimately have "a < of_int (2 ^ nat (bitLength n))" by linarith
    then have u: "a < pow2 (binaryExponent a + 1)" using g by (simp add: e pow2_def)
    show ?thesis using l u by simp
  next
    case False
    define m where "m = \<lceil>1 / a\<rceil> - 1"
    define L where "L = bitLength m"
    have "1 < 1 / a" using False assms by simp
    then have "2 \<le> \<lceil>1 / a\<rceil>" by (simp add: le_ceiling_iff)
    then have m: "1 \<le> m" by (simp add: m_def)
    have g: "1 \<le> L" using m by (simp add: L_def bitLength_ge)
    have e: "binaryExponent a = - L" using False by (simp add: binaryExponent_def m_def L_def)
    have m1: "of_int m < 1 / a" unfolding m_def using ceiling_correct [of "1 / a"] by simp
    have m2: "1 / a \<le> of_int (m + 1)" unfolding m_def using ceiling_correct [of "1 / a"] by simp
    have lo: "(2::int) ^ nat (L - 1) \<le> m" using m by (simp add: L_def bitLength_lower)
    have up: "m + 1 \<le> 2 ^ nat L" using bitLength_upper [of m] by (simp add: L_def)
    have "real_of_int (m + 1) \<le> of_int (2 ^ nat L)" using up by (simp only: of_int_le_iff)
    then have "1 / a \<le> 2 ^ nat L" using m2 by simp
    then have "1 \<le> 2 ^ nat L * a" using assms by (simp add: field_simps)
    then have l: "pow2 (binaryExponent a) \<le> a" using g by (simp add: e pow2_def field_simps)
    have "real_of_int (2 ^ nat (L - 1)) \<le> of_int m" using lo by (simp only: of_int_le_iff)
    then have "(2::real) ^ nat (L - 1) \<le> of_int m" by simp
    then have "2 ^ nat (L - 1) < 1 / a" using m1 by linarith
    then have "2 ^ nat (L - 1) * a < 1" using assms by (simp add: field_simps)
    moreover have "nat (- (1 - L)) = nat (L - 1)" by simp
    ultimately have u: "a < pow2 (binaryExponent a + 1)"
      using g by (auto simp add: e pow2_def field_simps)
    show ?thesis using l u by simp
  qed
  then show "pow2 (binaryExponent a) \<le> a" and "a < pow2 (binaryExponent a + 1)" by simp_all
qed

lemma roundEven_error: "\<bar>of_int (roundEven q) - q\<bar> \<le> 1 / 2"
  unfolding roundEven_def Let_def by (auto simp: abs_if) linarith+

lemma pow2_pos: "0 < pow2 k"
  by (simp add: pow2_def)

lemma pow2_half: "pow2 (k - 1) = pow2 k / 2"
  by (simp add: pow2_powi power_int_diff)

lemma pow2_shift: "pow2 (k - 53) = pow2 k / 2 ^ 53"
  by (simp add: pow2_powi power_int_diff)

lemma roundDouble_error:
  assumes "x \<noteq> 0"
  shows "\<bar>roundDouble x - x\<bar> \<le> pow2 (binaryExponent \<bar>x\<bar> - 53)"
proof -
  define ulp where "ulp = pow2 (binaryExponent \<bar>x\<bar> - 52)"
  define r where "r = roundEven (\<bar>x\<bar> / ulp)"
  have p: "0 < ulp" by (simp add: ulp_def pow2_pos)
  have h: "pow2 (binaryExponent \<bar>x\<bar> - 53) = ulp / 2"
    using pow2_half [of "binaryExponent \<bar>x\<bar> - 52"] by (simp add: ulp_def)
  have rd: "roundDouble x = sgn x * (of_int r * ulp)"
    using assms by (simp add: roundDouble_def Let_def ulp_def r_def)
  have "x = sgn x * \<bar>x\<bar>" by (simp add: sgn_if)
  then have "roundDouble x - x = sgn x * (of_int r * ulp - \<bar>x\<bar>)"
    unfolding rd by (simp add: algebra_simps)
  then have "\<bar>roundDouble x - x\<bar> = \<bar>of_int r * ulp - \<bar>x\<bar>\<bar>"
    using assms by (simp add: abs_mult sgn_if)
  also have "of_int r * ulp - \<bar>x\<bar> = (of_int r - \<bar>x\<bar> / ulp) * ulp"
    using p by (simp add: field_simps)
  also have "\<bar>(of_int r - \<bar>x\<bar> / ulp) * ulp\<bar> = \<bar>of_int r - \<bar>x\<bar> / ulp\<bar> * ulp"
    using p by (simp add: abs_mult)
  also have "\<dots> \<le> (1 / 2) * ulp"
    using roundEven_error [of "\<bar>x\<bar> / ulp"] p unfolding r_def
    by (intro mult_right_mono) simp_all
  finally show ?thesis by (simp add: h)
qed

lemma roundDouble_relative_error: "\<bar>roundDouble x - x\<bar> \<le> unitRoundoff * \<bar>x\<bar>"
proof (cases "x = 0")
  case True
  then show ?thesis by (simp add: roundDouble_def)
next
  case False
  then have "0 < \<bar>x\<bar>" by simp
  then have "pow2 (binaryExponent \<bar>x\<bar>) \<le> \<bar>x\<bar>" by (rule binaryExponent_bounds)
  then have "pow2 (binaryExponent \<bar>x\<bar> - 53) \<le> unitRoundoff * \<bar>x\<bar>"
    by (simp add: pow2_shift unitRoundoff_def field_simps)
  then show ?thesis using roundDouble_error [OF False] by linarith
qed

subsection \<open>Sums\<close>

lemma exactSumAbs_nonneg: "0 \<le> exactSumAbs txs"
  by (induction txs) (simp_all add: exactSumAbs_def)

lemma exactSumAbs_whole: "\<forall>t \<in> set txs. isWhole (amount t) \<Longrightarrow> isWhole (exactSumAbs txs)"
  by (induction txs) (simp_all add: exactSumAbs_def isWhole_zero isWhole_add isWhole_abs)

lemma exactSumAbs_split:
  "exactSumAbs (filter P txs) + exactSumAbs (filter (\<lambda>t. \<not> P t) txs) = exactSumAbs txs"
  by (induction txs) (simp_all add: exactSumAbs_def)

lemma exactSumAbs_filter_le: "exactSumAbs (filter P txs) \<le> exactSumAbs txs"
  using exactSumAbs_split [of P txs] exactSumAbs_nonneg [of "filter (\<lambda>t. \<not> P t) txs"]
  by linarith

lemma foldl_addNumber_exact:
  assumes "isWhole a" "0 \<le> a" "\<forall>t \<in> set txs. isWhole (amount t)"
    and "a + exactSumAbs txs \<le> maxSafeInteger"
  shows "foldl (\<lambda>sum t. addNumber sum \<bar>amount t\<bar>) a txs = a + exactSumAbs txs"
  using assms
proof (induction txs arbitrary: a)
  case Nil
  then show ?case by (simp add: exactSumAbs_def)
next
  case (Cons t txs)
  have s: "exactSumAbs (t # txs) = \<bar>amount t\<bar> + exactSumAbs txs"
    by (simp add: exactSumAbs_def)
  have w: "isWhole (a + \<bar>amount t\<bar>)"
    using Cons.prems(1,3) by (simp add: isWhole_add isWhole_abs)
  have n: "0 \<le> a + \<bar>amount t\<bar>" using Cons.prems(2) by simp
  have b: "a + \<bar>amount t\<bar> + exactSumAbs txs \<le> maxSafeInteger"
    using Cons.prems(4) s by simp
  then have "\<bar>a + \<bar>amount t\<bar>\<bar> \<le> maxSafeInteger"
    using n exactSumAbs_nonneg [of txs] by linarith
  then have r: "addNumber a \<bar>amount t\<bar> = a + \<bar>amount t\<bar>"
    unfolding addNumber_def using w by (intro roundDouble_whole)
  have "foldl (\<lambda>sum t. addNumber sum \<bar>amount t\<bar>) (a + \<bar>amount t\<bar>) txs
        = a + \<bar>amount t\<bar> + exactSumAbs txs"
    using w n b Cons.prems(3) by (intro Cons.IH) simp_all
  then show ?case by (simp add: r s)
qed

lemma sumAbs_exact:
  assumes "\<forall>t \<in> set txs. isWhole (amount t)" "exactSumAbs txs \<le> maxSafeInteger"
  shows "sumAbs txs = exactSumAbs txs"
  using foldl_addNumber_exact [of 0 txs] assms by (simp add: sumAbs_def isWhole_zero)

lemma sumAbs_Nil: "sumAbs [] = 0"
  by (simp add: sumAbs_def)

lemma whole_conservation:
  assumes w: "\<forall>t \<in> set txs. isWhole (amount t)" and b: "exactSumAbs txs \<le> maxSafeInteger"
  shows "sumAbs (filter P txs) + sumAbs (filter (\<lambda>t. \<not> P t) txs) = sumAbs txs"
    and "addNumber (sumAbs (filter P txs)) (sumAbs (filter (\<lambda>t. \<not> P t) txs)) = sumAbs txs"
proof -
  have p: "sumAbs (filter P txs) = exactSumAbs (filter P txs)"
    using w b exactSumAbs_filter_le [of P txs] by (intro sumAbs_exact) auto
  have q: "sumAbs (filter (\<lambda>t. \<not> P t) txs) = exactSumAbs (filter (\<lambda>t. \<not> P t) txs)"
    using w b exactSumAbs_filter_le [of "\<lambda>t. \<not> P t" txs] by (intro sumAbs_exact) auto
  have t: "sumAbs txs = exactSumAbs txs" using w b by (rule sumAbs_exact)
  show c: "sumAbs (filter P txs) + sumAbs (filter (\<lambda>t. \<not> P t) txs) = sumAbs txs"
    unfolding p q t by (rule exactSumAbs_split)
  have "isWhole (sumAbs txs)" unfolding t using w by (rule exactSumAbs_whole)
  moreover have "\<bar>sumAbs txs\<bar> \<le> maxSafeInteger"
    unfolding t using b exactSumAbs_nonneg [of txs] by simp
  ultimately have "roundDouble (sumAbs txs) = sumAbs txs" by (rule roundDouble_whole)
  then show "addNumber (sumAbs (filter P txs)) (sumAbs (filter (\<lambda>t. \<not> P t) txs)) = sumAbs txs"
    unfolding addNumber_def c .
qed

text \<open>The error of a sum that is added one number after the other.\<close>

lemma sumErrorBound_nonneg: "0 \<le> sumErrorBound n"
  by (simp add: sumErrorBound_def unitRoundoff_def)

lemma sumErrorBound_mono: "m \<le> n \<Longrightarrow> sumErrorBound m \<le> sumErrorBound n"
  by (simp add: sumErrorBound_def unitRoundoff_def power_increasing)

lemma sumErrorBound_Suc:
  "sumErrorBound (Suc n) = unitRoundoff + unitRoundoff * sumErrorBound n + sumErrorBound n"
  by (simp add: sumErrorBound_def algebra_simps)

lemma foldl_addNumber_error:
  assumes "0 \<le> e" "\<bar>s - e\<bar> \<le> sumErrorBound k * e"
  shows "\<bar>foldl (\<lambda>sum t. addNumber sum \<bar>amount t\<bar>) s txs - (e + exactSumAbs txs)\<bar>
         \<le> sumErrorBound (k + length txs) * (e + exactSumAbs txs)"
  using assms
proof (induction txs arbitrary: s e k)
  case Nil
  then show ?case by (simp add: exactSumAbs_def)
next
  case (Cons t txs)
  define y where "y = \<bar>amount t\<bar>"
  define u where "u = unitRoundoff"
  define d where "d = sumErrorBound k"
  have y: "0 \<le> y" by (simp add: y_def)
  have u: "0 \<le> u" by (simp add: u_def unitRoundoff_def)
  have d: "0 \<le> d" by (simp add: d_def sumErrorBound_nonneg)
  have x: "exactSumAbs (t # txs) = y + exactSumAbs txs"
    by (simp add: exactSumAbs_def y_def)
  have se: "\<bar>s - e\<bar> \<le> d * e" using Cons.prems(2) by (simp add: d_def)
  have a1: "\<bar>addNumber s y - (s + y)\<bar> \<le> u * \<bar>s + y\<bar>"
    unfolding addNumber_def u_def by (rule roundDouble_relative_error)
  have a2: "\<bar>s + y\<bar> \<le> e + y + d * e" using se Cons.prems(1) y by linarith
  have "u * \<bar>s + y\<bar> \<le> u * (e + y + d * e)" using a2 u by (rule mult_left_mono)
  then have a3: "\<bar>addNumber s y - (e + y)\<bar> \<le> u * (e + y + d * e) + d * e"
    using a1 se by linarith
  have "u * d * y \<ge> 0" "d * y \<ge> 0" using u d y by simp_all
  then have "u * (e + y + d * e) + d * e \<le> (u + u * d + d) * (e + y)"
    by (simp add: algebra_simps)
  then have b: "\<bar>addNumber s y - (e + y)\<bar> \<le> sumErrorBound (Suc k) * (e + y)"
    using a3 unfolding sumErrorBound_Suc u_def d_def by linarith
  have "\<bar>foldl (\<lambda>sum t. addNumber sum \<bar>amount t\<bar>) (addNumber s y) txs - (e + y + exactSumAbs txs)\<bar>
         \<le> sumErrorBound (Suc k + length txs) * (e + y + exactSumAbs txs)"
    using Cons.prems(1) y b by (intro Cons.IH) simp_all
  then show ?case by (simp add: x y_def [symmetric] add.assoc)
qed

lemma sumAbs_error: "\<bar>sumAbs txs - exactSumAbs txs\<bar> \<le> sumErrorBound (length txs) * exactSumAbs txs"
  using foldl_addNumber_error [of 0 0 0 txs] by (simp add: sumAbs_def)

lemma sumAbs_filter_error:
  "\<bar>sumAbs (filter P txs) - exactSumAbs (filter P txs)\<bar>
   \<le> sumErrorBound (length txs) * exactSumAbs (filter P txs)"
proof -
  have "sumErrorBound (length (filter P txs)) \<le> sumErrorBound (length txs)"
    by (intro sumErrorBound_mono) simp
  then have "sumErrorBound (length (filter P txs)) * exactSumAbs (filter P txs)
             \<le> sumErrorBound (length txs) * exactSumAbs (filter P txs)"
    using exactSumAbs_nonneg [of "filter P txs"] by (rule mult_right_mono)
  then show ?thesis using sumAbs_error [of "filter P txs"] by linarith
qed

lemma conservation_error:
  "\<bar>sumAbs (filter P txs) + sumAbs (filter (\<lambda>t. \<not> P t) txs) - sumAbs txs\<bar>
   \<le> 2 * sumErrorBound (length txs) * exactSumAbs txs"
proof -
  have s: "exactSumAbs (filter P txs) + exactSumAbs (filter (\<lambda>t. \<not> P t) txs) = exactSumAbs txs"
    by (rule exactSumAbs_split)
  have "sumErrorBound (length txs) * exactSumAbs (filter P txs)
        + sumErrorBound (length txs) * exactSumAbs (filter (\<lambda>t. \<not> P t) txs)
        = sumErrorBound (length txs) * exactSumAbs txs"
    unfolding s [symmetric] by (simp add: algebra_simps)
  then show ?thesis
    using sumAbs_filter_error [of P txs] sumAbs_filter_error [of "\<lambda>t. \<not> P t" txs]
      sumAbs_error [of txs] s
    by linarith
qed

subsection \<open>Groups\<close>

lemma set_insertBy: "set (insertBy le x xs) = insert x (set xs)"
  by (induction xs) auto

lemma set_sortBy: "set (sortBy le xs) = set xs"
  by (induction xs) (simp_all add: sortBy_def set_insertBy)

lemma mapPush_keys: "fst ` set (mapPush k v m) = insert k (fst ` set m)"
proof (induction m)
  case Nil
  show ?case by simp
next
  case (Cons p m)
  obtain k' vs where p: "p = (k', vs)" by (cases p)
  show ?case using Cons by (auto simp: p)
qed

lemma mapPush_distinct: "distinct (map fst m) \<Longrightarrow> distinct (map fst (mapPush k v m))"
proof (induction m)
  case Nil
  show ?case by simp
next
  case (Cons p m)
  obtain k' vs where p: "p = (k', vs)" by (cases p)
  have "k' \<notin> fst ` set m" using Cons.prems by (simp add: p)
  then show ?case using Cons mapPush_keys [of k v m] by (cases "k' = k") (simp_all add: p)
qed

lemma mapPush_entries:
  assumes "(k', vs') \<in> set (mapPush k v m)" "distinct (map fst m)"
  shows "(k' \<noteq> k \<and> (k', vs') \<in> set m)
         \<or> (k' = k \<and> (\<exists>vs. (k, vs) \<in> set m \<and> vs' = vs @ [v]))
         \<or> (k' = k \<and> k \<notin> fst ` set m \<and> vs' = [v])"
  using assms
proof (induction m)
  case Nil
  then show ?case by simp
next
  case (Cons p m)
  obtain k0 vs0 where p: "p = (k0, vs0)" by (cases p)
  show ?case
  proof (cases "k0 = k")
    case True
    with Cons.prems show ?thesis by (force simp: p)
  next
    case False
    with Cons show ?thesis by (auto simp: p)
  qed
qed

lemma grouped_step:
  assumes "grouped key m xs"
  shows "grouped key (mapPush (key x) x m) (xs @ [x])"
proof -
  have d: "distinct (map fst m)" using assms by (simp add: grouped_def)
  have inv: "\<And>k vs. (k, vs) \<in> set m \<Longrightarrow> vs = filter (\<lambda>x. key x = k) xs \<and> vs \<noteq> []"
    using assms by (auto simp: grouped_def)
  have cov: "\<And>y. y \<in> set xs \<Longrightarrow> key y \<in> fst ` set m"
    using assms by (auto simp: grouped_def)
  have "vs' = filter (\<lambda>y. key y = k') (xs @ [x]) \<and> vs' \<noteq> []"
    if mem: "(k', vs') \<in> set (mapPush (key x) x m)" for k' vs'
  proof -
    consider "k' \<noteq> key x" "(k', vs') \<in> set m"
      | vs where "k' = key x" "(key x, vs) \<in> set m" "vs' = vs @ [x]"
      | "k' = key x" "key x \<notin> fst ` set m" "vs' = [x]"
      using mapPush_entries [OF mem d] by blast
    then show ?thesis
    proof cases
      case 1
      then show ?thesis using inv [of k' vs'] by auto
    next
      case 2
      then show ?thesis using inv [of "key x" vs] by auto
    next
      case 3
      then have "filter (\<lambda>y. key y = key x) xs = []"
        using cov by (metis (mono_tags, lifting) filter_False)
      with 3 show ?thesis by simp
    qed
  qed
  then show ?thesis
    using mapPush_distinct [OF d] cov
    by (auto simp: grouped_def mapPush_keys)
qed

lemma grouped_groupByKey: "grouped key (groupByKey key xs) xs"
proof (induction xs rule: rev_induct)
  case Nil
  show ?case by (simp add: groupByKey_def grouped_def)
next
  case (snoc x xs)
  then show ?case using grouped_step [of key "groupByKey key xs" xs x]
    by (simp add: groupByKey_def)
qed

subsection \<open>The entry of a period\<close>

lemma find_unique:
  assumes "x \<in> set xs" "P x" "\<forall>y \<in> set xs. P y \<longrightarrow> y = x"
  shows "find P xs = Some x"
  using assms
proof (induction xs)
  case Nil
  then show ?case by simp
next
  case (Cons a xs)
  show ?case
  proof (cases "P a")
    case True
    then have "a = x" using Cons.prems(3) by auto
    then show ?thesis using True by simp
  next
    case False
    then have mem: "x \<in> set xs" using Cons.prems(1,2) by auto
    have "\<forall>y \<in> set xs. P y \<longrightarrow> y = x" using Cons.prems(3) by auto
    then have "find P xs = Some x" using Cons.IH mem Cons.prems(2) by blast
    then show ?thesis using False by simp
  qed
qed

lemma find_none: "(\<And>y. y \<in> set xs \<Longrightarrow> \<not> P y) \<Longrightarrow> find P xs = None"
  by (induction xs) auto

lemma month_monthEntry: "month (monthEntry k txs) = k"
  by (simp add: monthEntry_def Let_def del: filter_filter)

lemma totalIncome_monthEntry:
  "totalIncome (monthEntry k txs) = sumAmount (filter (\<lambda>t. txType t = Income) txs)"
  by (simp add: monthEntry_def Let_def del: filter_filter)

lemma set_getMonthlyData:
  "set (getMonthlyData rt st) =
     (\<lambda>(k, txs). monthEntry k txs)
       ` set (groupByKey (\<lambda>tx. getSalaryMonthKey (txDate tx)) (getFilteredTransactions st))"
  by (simp add: getMonthlyData_def Let_def set_sortBy)

lemma mem_getMonthlyData:
  "y \<in> set (getMonthlyData rt st) \<longleftrightarrow>
     (\<exists>k vs. (k, vs) \<in> set (groupByKey (\<lambda>tx. getSalaryMonthKey (txDate tx))
                               (getFilteredTransactions st)) \<and> y = monthEntry k vs)"
  unfolding set_getMonthlyData by auto

lemma nonempty_filter:
  assumes "filter P xs \<noteq> []"
  obtains x where "x \<in> set xs" "P x"
proof -
  obtain x where "x \<in> set (filter P xs)" using assms by (cases "filter P xs") auto
  then have "x \<in> set xs" "P x" by simp_all
  then show ?thesis by (rule that)
qed

lemma sumAmount_Nil: "sumAmount [] = 0"
  by (simp add: sumAmount_def)

lemma find_month_none:
  assumes "filter (\<lambda>t. getSalaryMonthKey (txDate t) = K) (getFilteredTransactions st) = []"
  shows "find (\<lambda>m. month m = K) (getMonthlyData rt st) = None"
proof (rule find_none)
  fix y
  assume y: "y \<in> set (getMonthlyData rt st)"
  then obtain k vs
    where kv: "(k, vs) \<in> set (groupByKey (\<lambda>tx. getSalaryMonthKey (txDate tx))
                                 (getFilteredTransactions st))"
      and e: "y = monthEntry k vs"
    unfolding mem_getMonthlyData by blast
  have "vs = filter (\<lambda>t. getSalaryMonthKey (txDate t) = k) (getFilteredTransactions st) \<and> vs \<noteq> []"
    using grouped_groupByKey [of "\<lambda>tx. getSalaryMonthKey (txDate tx)" "getFilteredTransactions st"] kv
    by (auto simp: grouped_def)
  then have "k \<noteq> K" using assms by blast
  then show "\<not> month y = K" by (simp add: e month_monthEntry)
qed

lemma find_month_some:
  assumes "filter (\<lambda>t. getSalaryMonthKey (txDate t) = K) (getFilteredTransactions st) \<noteq> []"
  shows "find (\<lambda>m. month m = K) (getMonthlyData rt st) =
    Some (monthEntry K (filter (\<lambda>t. getSalaryMonthKey (txDate t) = K) (getFilteredTransactions st)))"
proof (rule find_unique)
  let ?key = "\<lambda>tx :: transaction. getSalaryMonthKey (txDate tx)"
  let ?g = "groupByKey ?key (getFilteredTransactions st)"
  let ?txs = "filter (\<lambda>t. getSalaryMonthKey (txDate t) = K) (getFilteredTransactions st)"
  have gr: "grouped ?key ?g (getFilteredTransactions st)" by (rule grouped_groupByKey)
  have ent: "vs = filter (\<lambda>t. getSalaryMonthKey (txDate t) = k) (getFilteredTransactions st)"
    if kv: "(k, vs) \<in> set ?g" for k vs
    using gr kv by (auto simp: grouped_def)
  obtain x where x: "x \<in> set (getFilteredTransactions st)" "?key x = K"
    using assms by (rule nonempty_filter)
  have "?key x \<in> fst ` set ?g" using gr x(1) by (auto simp: grouped_def)
  then obtain vs where kv: "(K, vs) \<in> set ?g" using x(2) by force
  have "vs = ?txs" using ent [OF kv] .
  then have "(K, ?txs) \<in> set ?g" using kv by simp
  then show "monthEntry K ?txs \<in> set (getMonthlyData rt st)"
    unfolding mem_getMonthlyData by blast
  show "month (monthEntry K ?txs) = K" by (rule month_monthEntry)
  show "\<forall>y \<in> set (getMonthlyData rt st). month y = K \<longrightarrow> y = monthEntry K ?txs"
  proof (intro ballI impI)
    fix y
    assume y: "y \<in> set (getMonthlyData rt st)" and my: "month y = K"
    obtain k ws where kw: "(k, ws) \<in> set ?g" and e: "y = monthEntry k ws"
      using y unfolding mem_getMonthlyData by blast
    have "k = K" using my by (simp add: e month_monthEntry)
    then show "y = monthEntry K ?txs" using ent [OF kw] e by simp
  qed
qed


lemma find_month:
  "find (\<lambda>m. month m = K) (getMonthlyData rt st) =
     (if filter (\<lambda>t. getSalaryMonthKey (txDate t) = K) (getFilteredTransactions st) = [] then None
      else Some (monthEntry K
        (filter (\<lambda>t. getSalaryMonthKey (txDate t) = K) (getFilteredTransactions st))))"
  using find_month_none [of K st rt] find_month_some [of K st rt] by presburger

subsection \<open>Rows and identifiers\<close>

lemma hashStep_mult: "hashStep h c = h * 31 + ucast c"
  by (simp add: hashStep_def push_bit_eq_mult)

lemma foldl_hashStep: "foldl hashStep h s = foldl (\<lambda>acc c. acc * 31 + ucast c) h s"
  by (induction s arbitrary: h) (simp_all add: hashStep_mult)

lemma generateId_formula:
  "generateId rt raw i =
     showBase36 (nat \<bar>sint (rollingHash
        (idSource (operationDate raw) (numberToString rt (operationAmount raw))
           (rawDescription raw) i))\<bar>)"
  by (simp add: generateId_def Let_def rollingHash_def idSource_def foldl_hashStep)

lemma parseRow_Some_iff: "(\<exists>tx. parseRow rt cfg i l = Some tx) \<longleftrightarrow> keptLine l"
  by (simp add: parseRow_def keptLine_def fieldAt_def Let_def)

lemma parseRow_None_iff: "parseRow rt cfg i l = None \<longleftrightarrow> \<not> keptLine l"
  using parseRow_Some_iff [of rt cfg i l] by (cases "parseRow rt cfg i l") auto

lemma parseRow_txId:
  assumes "parseRow rt cfg i l = Some tx"
  shows "txId tx = generateId rt
      \<lparr> operationDate = fieldAt l 0, paymentDate = fieldAt l 1, rawCardNumber = fieldAt l 2,
        status = fieldAt l 3, operationAmount = parseAmount rt (fieldAt l 4),
        operationCurrency = fieldAt l 5, paymentAmount = parseAmount rt (fieldAt l 6),
        paymentCurrency = fieldAt l 7, cashback = fieldAt l 8, rawCategory = fieldAt l 9,
        rawMcc = fieldAt l 10, rawDescription = fieldAt l 11,
        bonuses = orEmpty (elemAt (parseCSVLine (trim l)) 12),
        investRounding = orEmpty (elemAt (parseCSVLine (trim l)) 13),
        amountWithRounding = orEmpty (elemAt (parseCSVLine (trim l)) 14) \<rparr> i"
  using assms by (auto simp: parseRow_def fieldAt_def Let_def split: if_splits)

lemma length_insertBy: "length (insertBy le x xs) = Suc (length xs)"
  by (induction xs) auto

lemma length_sortBy: "length (sortBy le xs) = length xs"
  by (induction xs) (simp_all add: sortBy_def length_insertBy)

lemma length_parseRows: "length (parseRows rt cfg i ls) = length (filter keptLine ls)"
proof (induction ls arbitrary: i)
  case Nil
  show ?case by simp
next
  case (Cons l ls)
  show ?case
  proof (cases "parseRow rt cfg i l")
    case None
    then have "\<not> keptLine l" by (simp add: parseRow_None_iff)
    then show ?thesis using None Cons by simp
  next
    case (Some tx)
    then have "keptLine l" using parseRow_Some_iff [of rt cfg i l] by auto
    then show ?thesis using Some Cons by simp
  qed
qed

lemma length_parseCSV:
  "length (parseCSV rt cfg text) = length (filter keptLine (drop 1 (splitOn 10 text)))"
  by (simp add: parseCSV_def Let_def length_sortBy length_parseRows)

lemma digit36_ok: "d < 36 \<Longrightarrow> isBase36Digit (digit36 d)"
proof -
  assume d: "d < 36"
  have "unat (of_nat (48 + d) :: jschar) = 48 + d" "unat (of_nat (87 + d) :: jschar) = 87 + d"
    using d by (simp_all add: unat_of_nat del: of_nat_add)
  then show ?thesis using d
    by (auto simp: isBase36Digit_def digit36_def word_le_nat_alt simp del: of_nat_add)
qed

lemma showBase36_digits: "list_all isBase36Digit (showBase36 n)"
proof (induction n rule: showBase36.induct)
  case (1 n)
  show ?case
  proof (cases "n < 36")
    case True
    then show ?thesis by (subst showBase36.simps) (simp add: digit36_ok)
  next
    case False
    with 1 show ?thesis by (subst showBase36.simps) (simp add: digit36_ok)
  qed
qed

section \<open>The claims\<close>

text \<open>
  C4. \<open>getSalaryMonthKey\<close> gives a date whose day of the month is below 23 the key of the
  period that started in the previous month, with the year rolled back when that month is
  before January, and a date from the 23rd on the key of the period that starts in its own
  month. 22 November 2025 has the key 2025-10 and 23 November 2025 the key 2025-11, at
  any time of the day.
\<close>

theorem getSalaryMonthKey_period:
  "(validDate d \<longrightarrow> getSalaryMonthKey d = periodKeyOf d)
   \<and> getSalaryMonthKey (dateAt 2025 11 22 h mi s ms) = js ''2025-10''
   \<and> getSalaryMonthKey (dateAt 2025 11 23 h mi s ms) = js ''2025-11''"
proof -
  have "getSalaryMonthKey d = periodKeyOf d" if "validDate d"
  proof -
    have "0 \<le> getMonth d" using that by (simp add: validDate_def)
    then show ?thesis
      by (auto simp: getSalaryMonthKey_cases periodKeyOf_def previousMonth_def Let_def)
  qed
  moreover have "getSalaryMonthKey (dateAt 2025 11 22 h mi s ms) = js ''2025-10''"
    by (simp add: getSalaryMonthKey_cases dateAt_def keyOf_def showInt_def showNat.simps
        padStart2_def js_def digitChar_def)
  moreover have "getSalaryMonthKey (dateAt 2025 11 23 h mi s ms) = js ''2025-11''"
    by (simp add: getSalaryMonthKey_cases dateAt_def keyOf_def showInt_def showNat.simps
        padStart2_def js_def digitChar_def)
  ultimately show ?thesis by blast
qed

theorem getSalaryMonthKey_period_witness:
  "validDate (dateAt 2025 1 5 12 0 0 0)
   \<and> getSalaryMonthKey (dateAt 2025 1 5 12 0 0 0) = periodKeyOf (dateAt 2025 1 5 12 0 0 0)
   \<and> periodKeyOf (dateAt 2025 1 5 12 0 0 0) = js ''2024-12''"
proof -
  have v: "validDate (dateAt 2025 1 5 12 0 0 0)"
    by (simp add: validDate_def dateAt_def monthLength_def)
  have "periodKeyOf (dateAt 2025 1 5 12 0 0 0) = js ''2024-12''"
    by (simp add: periodKeyOf_def previousMonth_def dateAt_def keyOf_def showInt_def
        showNat.simps padStart2_def js_def digitChar_def)
  then show ?thesis
    using v getSalaryMonthKey_period [of "dateAt 2025 1 5 12 0 0 0"] by simp
qed

text \<open>
  C3, evaluated where it fails. 22 November 2025, 23:59:59.500 is a valid date and
  \<open>getSalaryMonthKey\<close> puts it into the period 2025-10, whose range ends at 23:59:59.000
  of that day; \<open>isInSalaryMonth\<close> therefore answers false for the date and its own key.
  The day index of the date is 31, the length of the period.
\<close>

theorem isInSalaryMonth_last_second:
  "validDate (dateAt 2025 11 22 23 59 59 500)
   \<and> getSalaryMonthKey (dateAt 2025 11 22 23 59 59 500) = js ''2025-10''
   \<and> \<not> isInSalaryMonth (dateAt 2025 11 22 23 59 59 500)
          (getSalaryMonthKey (dateAt 2025 11 22 23 59 59 500))
   \<and> getSalaryMonthDay (dateAt 2025 11 22 23 59 59 500) = Some 31
   \<and> getSalaryMonthDays (getSalaryMonthKey (dateAt 2025 11 22 23 59 59 500)) = Some 31"
  by code_simp

text \<open>
  C10. Whatever the transactions and the budget are, and also when no transaction is
  left and the current date is read instead, \<open>getCurrentMonthStats\<close> computes a
  \<open>daysRemaining\<close> of at least 1, so that the quotient behind \<open>dailyBudget\<close> has a divisor
  that is not zero and \<open>dailyBudget\<close> is a finite number. The dates are valid calendar
  dates.
\<close>

theorem daysRemaining_at_least_one:
  assumes "validDate now" "\<forall>tx \<in> set (transactions st). validDate (txDate tx)"
  shows "\<exists>n. daysRemaining (getCurrentMonthStats now st) = Some n \<and> 1 \<le> n
             \<and> (\<exists>x. dailyBudget (getCurrentMonthStats now st) = Finite x)"
proof -
  obtain n c where n: "daysInMonth (getCurrentMonthStats now st) = Some n"
    and r: "daysRemaining (getCurrentMonthStats now st) = Some (n - c + 1)"
    and le: "c \<le> n"
    using stats_days [OF assms] by blast
  have "\<exists>x. dailyBudget (getCurrentMonthStats now st) = Finite x"
    using le by (simp add: stats_dailyBudget [OF n r] jsDivide_def)
  then show ?thesis using r le by simp
qed

theorem daysRemaining_at_least_one_witness:
  "validDate (dateAt 2025 11 22 23 59 59 500)
   \<and> transactions (storeOf []) = []
   \<and> daysRemaining (getCurrentMonthStats (dateAt 2025 11 22 23 59 59 500) (storeOf [])) = Some 1
   \<and> (\<exists>x. dailyBudget (getCurrentMonthStats (dateAt 2025 11 22 23 59 59 500) (storeOf []))
            = Finite x)"
proof -
  have v: "validDate (dateAt 2025 11 22 23 59 59 500)"
    by (simp add: validDate_def dateAt_def monthLength_def)
  have e: "\<forall>tx \<in> set (transactions (storeOf [])). validDate (txDate tx)"
    by (simp add: storeOf_def)
  have "daysRemaining (getCurrentMonthStats (dateAt 2025 11 22 23 59 59 500) (storeOf [])) = Some 1"
    by code_simp
  then show ?thesis
    using v daysRemaining_at_least_one [OF v e] by (simp add: storeOf_def)
qed

text \<open>
  C1. For valid dates \<open>getCurrentMonthStats\<close> computes \<open>daysRemaining\<close> as the length of
  the period minus the index of the current day plus 1, and \<open>dailyBudget\<close> as the larger of
  0 and (dailyTarget times the length of the period, minus the daily pool spent so far)
  divided by \<open>daysRemaining\<close>, in the arithmetic of the language. The daily pool spent so
  far is the sum of the absolute amounts of the unfiltered expenses of the daily pool
  that lie in the current period, and the current period is the one of the latest
  unfiltered transaction, or of the current date when there is none. \<open>dailyBudget\<close> is
  never negative. With a daily target of 1000, a period of 30 days, 9000 spent from the
  daily pool and 10 days remaining, the daily budget is 2100.
\<close>

theorem getCurrentMonthStats_dailyBudget:
  "(validDate now \<and> (\<forall>tx \<in> set (transactions st). validDate (txDate tx)) \<longrightarrow>
      (\<exists>n c. daysInMonth (getCurrentMonthStats now st) = Some n
           \<and> currentDay (getCurrentMonthStats now st) = Some c
           \<and> daysRemaining (getCurrentMonthStats now st) = Some (n - c + 1)
           \<and> dailyBudget (getCurrentMonthStats now st) =
               Finite (max 0 (divNumber
                  (subNumber (mulNumber (dailyTarget (budget st)) (of_int n))
                     (statsDailyPoolSpent (getCurrentMonthStats now st)))
                  (of_int (n - c + 1))))))
   \<and> statsDailyPoolSpent (getCurrentMonthStats now st) =
       sumAbs (filter (\<lambda>t. pool t = Daily)
         (filter (\<lambda>tx. isInSalaryMonth (txDate tx) (currentMonth (getCurrentMonthStats now st))
                        \<and> txType tx = Expense)
            (getFilteredTransactions st)))
   \<and> currentMonth (getCurrentMonthStats now st) = getSalaryMonthKey (latestDate now st)
   \<and> (getFilteredTransactions st = [] \<longrightarrow> latestDate now st = now)
   \<and> (getFilteredTransactions st \<noteq> [] \<longrightarrow>
         latestDate now st \<in> txDate ` set (getFilteredTransactions st))
   \<and> (\<forall>tx \<in> set (getFilteredTransactions st).
         getTime (txDate tx) \<le> getTime (latestDate now st))
   \<and> dailyBudget (getCurrentMonthStats now st) \<noteq> NegInfinity
   \<and> (\<forall>x. dailyBudget (getCurrentMonthStats now st) = Finite x \<longrightarrow> 0 \<le> x)
   \<and> (let s = getCurrentMonthStats (dateAt 2026 1 1 0 0 0 0) scenarioStore
      in dailyTarget (budget scenarioStore) = 1000 \<and> daysInMonth s = Some 30
         \<and> statsDailyPoolSpent s = 9000 \<and> daysRemaining s = Some 10
         \<and> dailyBudget s = Finite 2100)"
proof -
  have a: "\<exists>n c. daysInMonth (getCurrentMonthStats now st) = Some n
           \<and> currentDay (getCurrentMonthStats now st) = Some c
           \<and> daysRemaining (getCurrentMonthStats now st) = Some (n - c + 1)
           \<and> dailyBudget (getCurrentMonthStats now st) =
               Finite (max 0 (divNumber
                  (subNumber (mulNumber (dailyTarget (budget st)) (of_int n))
                     (statsDailyPoolSpent (getCurrentMonthStats now st)))
                  (of_int (n - c + 1))))"
    if v: "validDate now" "\<forall>tx \<in> set (transactions st). validDate (txDate tx)"
  proof -
    obtain n c where n: "daysInMonth (getCurrentMonthStats now st) = Some n"
      and c: "currentDay (getCurrentMonthStats now st) = Some c"
      and r: "daysRemaining (getCurrentMonthStats now st) = Some (n - c + 1)"
      and le: "c \<le> n"
      using stats_days [OF v] by blast
    have "dailyBudget (getCurrentMonthStats now st) =
               Finite (max 0 (divNumber
                  (subNumber (mulNumber (dailyTarget (budget st)) (of_int n))
                     (statsDailyPoolSpent (getCurrentMonthStats now st)))
                  (of_int (n - c + 1))))"
      using le by (simp add: stats_dailyBudget [OF n r] jsDivide_def)
    then show ?thesis using n c r by blast
  qed
  have b: "let s = getCurrentMonthStats (dateAt 2026 1 1 0 0 0 0) scenarioStore
      in dailyTarget (budget scenarioStore) = 1000 \<and> daysInMonth s = Some 30
         \<and> statsDailyPoolSpent s = 9000 \<and> daysRemaining s = Some 10
         \<and> dailyBudget s = Finite 2100"
    by code_simp
  have c: "currentMonth (getCurrentMonthStats now st) = getSalaryMonthKey (latestDate now st)"
    by (rule stats_fields)
  show ?thesis
    using a b c stats_inputs [of now st] latestDate_empty [of st now] latestDate_mem [of st now]
      latestDate_max [of st now] dailyBudget_nonneg [of now st]
    by blast
qed

theorem getCurrentMonthStats_dailyBudget_witness:
  "validDate (dateAt 2026 1 1 0 0 0 0)
   \<and> list_all (\<lambda>tx. validDate (txDate tx)) (transactions scenarioStore)
   \<and> getFilteredTransactions scenarioStore \<noteq> []
   \<and> latestDate (dateAt 2026 1 1 0 0 0 0) scenarioStore = dateAt 2025 12 13 10 30 0 0
   \<and> (\<exists>n c. daysInMonth (getCurrentMonthStats (dateAt 2026 1 1 0 0 0 0) scenarioStore) = Some n
         \<and> currentDay (getCurrentMonthStats (dateAt 2026 1 1 0 0 0 0) scenarioStore) = Some c
         \<and> daysRemaining (getCurrentMonthStats (dateAt 2026 1 1 0 0 0 0) scenarioStore)
             = Some (n - c + 1))
   \<and> dailyBudget (getCurrentMonthStats (dateAt 2026 1 1 0 0 0 0) scenarioStore) = Finite 2100"
proof -
  have v: "validDate (dateAt 2026 1 1 0 0 0 0)"
    by (simp add: validDate_def dateAt_def monthLength_def)
  have e: "\<forall>tx \<in> set (transactions scenarioStore). validDate (txDate tx)"
    by (simp add: scenarioStore_def storeOf_def expenseOn_def incomeOn_def validDate_def
        dateAt_def monthLength_def)
  then have l: "list_all (\<lambda>tx. validDate (txDate tx)) (transactions scenarioStore)"
    by (simp add: list_all_iff)
  have f: "getFilteredTransactions scenarioStore \<noteq> []"
    by (simp add: scenarioStore_def storeOf_def getFilteredTransactions_def expenseOn_def)
  have d: "latestDate (dateAt 2026 1 1 0 0 0 0) scenarioStore = dateAt 2025 12 13 10 30 0 0"
    by code_simp
  note inst = getCurrentMonthStats_dailyBudget [of "dateAt 2026 1 1 0 0 0 0" scenarioStore]
  have ex: "\<exists>n c. daysInMonth (getCurrentMonthStats (dateAt 2026 1 1 0 0 0 0) scenarioStore) = Some n
         \<and> currentDay (getCurrentMonthStats (dateAt 2026 1 1 0 0 0 0) scenarioStore) = Some c
         \<and> daysRemaining (getCurrentMonthStats (dateAt 2026 1 1 0 0 0 0) scenarioStore)
             = Some (n - c + 1)"
    using inst [THEN conjunct1] v e by blast
  have "let s = getCurrentMonthStats (dateAt 2026 1 1 0 0 0 0) scenarioStore
      in dailyTarget (budget scenarioStore) = 1000 \<and> daysInMonth s = Some 30
         \<and> statsDailyPoolSpent s = 9000 \<and> daysRemaining s = Some 10
         \<and> dailyBudget s = Finite 2100"
    using inst by blast
  then have g: "dailyBudget (getCurrentMonthStats (dateAt 2026 1 1 0 0 0 0) scenarioStore)
                = Finite 2100"
    by (simp add: Let_def)
  show ?thesis
    using v l f d ex g by (intro conjI)
qed

text \<open>
  C2, where it fails. The amounts 0.1, 0.1 and 1.1 of one period, the first and the last
  from the daily pool: \<open>totalExpenses\<close> is 0.1 + 0.1 + 1.1 = 1.3, \<open>dailyPoolSpent\<close> is
  0.1 + 1.1 = 1.2000000000000002 and \<open>monthlyPoolSpent\<close> is 0.1, and the sum of the two,
  rounded or not, is not \<open>totalExpenses\<close>.
\<close>

theorem pool_sums_are_rounded:
  "hd (getMonthlyData exampleRuntime roundingStore) \<in> set (getMonthlyData exampleRuntime roundingStore)
   \<and> totalExpenses (hd (getMonthlyData exampleRuntime roundingStore))
       = 5854679515581645 / 4503599627370496
   \<and> addNumber (dailyPoolSpent (hd (getMonthlyData exampleRuntime roundingStore)))
        (monthlyPoolSpent (hd (getMonthlyData exampleRuntime roundingStore)))
       = 2927339757790823 / 2251799813685248
   \<and> addNumber (dailyPoolSpent (hd (getMonthlyData exampleRuntime roundingStore)))
        (monthlyPoolSpent (hd (getMonthlyData exampleRuntime roundingStore)))
       \<noteq> totalExpenses (hd (getMonthlyData exampleRuntime roundingStore))
   \<and> dailyPoolSpent (hd (getMonthlyData exampleRuntime roundingStore))
        + monthlyPoolSpent (hd (getMonthlyData exampleRuntime roundingStore))
       \<noteq> totalExpenses (hd (getMonthlyData exampleRuntime roundingStore))"
proof -
  have ne: "getMonthlyData exampleRuntime roundingStore \<noteq> []"
    by code_simp
  have t: "totalExpenses (hd (getMonthlyData exampleRuntime roundingStore))
           = 5854679515581645 / 4503599627370496"
    by code_simp
  have d: "dailyPoolSpent (hd (getMonthlyData exampleRuntime roundingStore))
           = 1351079888211149 / 1125899906842624"
    by code_simp
  have m: "monthlyPoolSpent (hd (getMonthlyData exampleRuntime roundingStore))
           = 3602879701896397 / 36028797018963968"
    by code_simp
  have s: "addNumber (1351079888211149 / 1125899906842624) (3602879701896397 / 36028797018963968)
           = 2927339757790823 / 2251799813685248"
    by code_simp
  show ?thesis
    using ne unfolding t d m s by simp
qed

text \<open>
  C2 as amended. In every entry of \<open>getMonthlyData\<close>, \<open>totalExpenses\<close>,
  \<open>dailyPoolSpent\<close> and \<open>monthlyPoolSpent\<close> are the sums, added in the arithmetic of the
  language in the order of the list, of the absolute amounts of the unfiltered expenses
  of the entry's period: of all of them, of those of the daily pool and of those of
  every other pool (monthly, mandatory and other). In exact arithmetic the sums over the
  two pools add up to the sum over all expenses, and \<open>dailyPoolSpent\<close> plus
  \<open>monthlyPoolSpent\<close> differs from \<open>totalExpenses\<close> by at most twice the exact sum
  times the error bound of a sum of as many numbers as the period has expenses. When
  the amounts are whole numbers whose sum is at most the largest safe integer, no
  addition is rounded, and \<open>dailyPoolSpent\<close> plus \<open>monthlyPoolSpent\<close> is
  \<open>totalExpenses\<close>.
\<close>

theorem getMonthlyData_pool_split:
  "\<forall>e \<in> set (getMonthlyData rt st).
     (let expenses = filter (\<lambda>t. txType t = Expense)
                         (filter (\<lambda>t. getSalaryMonthKey (txDate t) = month e)
                            (getFilteredTransactions st))
      in totalExpenses e = sumAbs expenses
         \<and> dailyPoolSpent e = sumAbs (filter (\<lambda>t. pool t = Daily) expenses)
         \<and> monthlyPoolSpent e = sumAbs (filter (\<lambda>t. pool t \<noteq> Daily) expenses)
         \<and> exactSumAbs (filter (\<lambda>t. pool t = Daily) expenses)
             + exactSumAbs (filter (\<lambda>t. pool t \<noteq> Daily) expenses) = exactSumAbs expenses
         \<and> \<bar>dailyPoolSpent e + monthlyPoolSpent e - totalExpenses e\<bar>
             \<le> 2 * sumErrorBound (length expenses) * exactSumAbs expenses
         \<and> ((\<forall>t \<in> set expenses. isWhole (amount t)) \<and> exactSumAbs expenses \<le> maxSafeInteger
              \<longrightarrow> dailyPoolSpent e + monthlyPoolSpent e = totalExpenses e
                  \<and> addNumber (dailyPoolSpent e) (monthlyPoolSpent e) = totalExpenses e
                  \<and> totalExpenses e = exactSumAbs expenses))"
proof
  fix e
  assume "e \<in> set (getMonthlyData rt st)"
  then obtain k txs
    where kt: "(k, txs) \<in> set (groupByKey (\<lambda>tx. getSalaryMonthKey (txDate tx))
                                 (getFilteredTransactions st))"
      and e: "e = monthEntry k txs"
    unfolding mem_getMonthlyData by blast
  have txs: "txs = filter (\<lambda>t. getSalaryMonthKey (txDate t) = k) (getFilteredTransactions st)"
    using grouped_groupByKey [of "\<lambda>tx. getSalaryMonthKey (txDate tx)" "getFilteredTransactions st"] kt
    by (auto simp: grouped_def)
  have m: "month e = k" by (simp add: e month_monthEntry)
  define expenses where "expenses = filter (\<lambda>t. txType t = Expense) txs"
  have t: "totalExpenses e = sumAbs expenses"
    and d: "dailyPoolSpent e = sumAbs (filter (\<lambda>t. pool t = Daily) expenses)"
    and n: "monthlyPoolSpent e = sumAbs (filter (\<lambda>t. pool t \<noteq> Daily) expenses)"
    by (simp_all add: e monthEntry_def Let_def expenses_def del: filter_filter)
  have x: "exactSumAbs (filter (\<lambda>t. pool t = Daily) expenses)
             + exactSumAbs (filter (\<lambda>t. pool t \<noteq> Daily) expenses) = exactSumAbs expenses"
    by (rule exactSumAbs_split)
  have r: "\<bar>dailyPoolSpent e + monthlyPoolSpent e - totalExpenses e\<bar>
             \<le> 2 * sumErrorBound (length expenses) * exactSumAbs expenses"
    unfolding t d n by (rule conservation_error)
  have w: "dailyPoolSpent e + monthlyPoolSpent e = totalExpenses e
           \<and> addNumber (dailyPoolSpent e) (monthlyPoolSpent e) = totalExpenses e
           \<and> totalExpenses e = exactSumAbs expenses"
    if h: "(\<forall>t \<in> set expenses. isWhole (amount t)) \<and> exactSumAbs expenses \<le> maxSafeInteger"
    unfolding t d n
    using whole_conservation [of expenses "\<lambda>t. pool t = Daily"] sumAbs_exact [of expenses] h
    by blast
  show "let expenses = filter (\<lambda>t. txType t = Expense)
                         (filter (\<lambda>t. getSalaryMonthKey (txDate t) = month e)
                            (getFilteredTransactions st))
      in totalExpenses e = sumAbs expenses
         \<and> dailyPoolSpent e = sumAbs (filter (\<lambda>t. pool t = Daily) expenses)
         \<and> monthlyPoolSpent e = sumAbs (filter (\<lambda>t. pool t \<noteq> Daily) expenses)
         \<and> exactSumAbs (filter (\<lambda>t. pool t = Daily) expenses)
             + exactSumAbs (filter (\<lambda>t. pool t \<noteq> Daily) expenses) = exactSumAbs expenses
         \<and> \<bar>dailyPoolSpent e + monthlyPoolSpent e - totalExpenses e\<bar>
             \<le> 2 * sumErrorBound (length expenses) * exactSumAbs expenses
         \<and> ((\<forall>t \<in> set expenses. isWhole (amount t)) \<and> exactSumAbs expenses \<le> maxSafeInteger
              \<longrightarrow> dailyPoolSpent e + monthlyPoolSpent e = totalExpenses e
                  \<and> addNumber (dailyPoolSpent e) (monthlyPoolSpent e) = totalExpenses e
                  \<and> totalExpenses e = exactSumAbs expenses)"
    unfolding Let_def m txs [symmetric] expenses_def [symmetric]
    using t d n x r w by blast
qed

theorem getMonthlyData_pool_split_witness:
  "hd (getMonthlyData exampleRuntime wholeStore) \<in> set (getMonthlyData exampleRuntime wholeStore)
   \<and> list_all (\<lambda>t. isWhole (amount t)) (transactions wholeStore)
   \<and> dailyPoolSpent (hd (getMonthlyData exampleRuntime wholeStore)) = 9000
   \<and> monthlyPoolSpent (hd (getMonthlyData exampleRuntime wholeStore)) = 2500
   \<and> totalExpenses (hd (getMonthlyData exampleRuntime wholeStore)) = 11500
   \<and> dailyPoolSpent (hd (getMonthlyData exampleRuntime wholeStore))
        + monthlyPoolSpent (hd (getMonthlyData exampleRuntime wholeStore))
       = totalExpenses (hd (getMonthlyData exampleRuntime wholeStore))"
proof -
  let ?e = "hd (getMonthlyData exampleRuntime wholeStore)"
  let ?x = "filter (\<lambda>t. txType t = Expense)
              (filter (\<lambda>t. getSalaryMonthKey (txDate t) = month ?e)
                 (getFilteredTransactions wholeStore))"
  have ne: "getMonthlyData exampleRuntime wholeStore \<noteq> []"
    by code_simp
  then have mem: "?e \<in> set (getMonthlyData exampleRuntime wholeStore)"
    by simp
  have d: "dailyPoolSpent ?e = 9000" by code_simp
  have m: "monthlyPoolSpent ?e = 2500" by code_simp
  have l: "list_all (\<lambda>t. isWhole (amount t)) (transactions wholeStore)"
    by code_simp
  then have wa: "\<forall>t \<in> set (transactions wholeStore). isWhole (amount t)"
    by (simp add: list_all_iff)
  have w: "\<forall>t \<in> set ?x. isWhole (amount t)"
    using wa by (simp add: getFilteredTransactions_def)
  have "exactSumAbs ?x \<le> exactSumAbs (getFilteredTransactions wholeStore)"
    using exactSumAbs_filter_le [of "\<lambda>t. txType t = Expense"
        "filter (\<lambda>t. getSalaryMonthKey (txDate t) = month ?e) (getFilteredTransactions wholeStore)"]
      exactSumAbs_filter_le [of "\<lambda>t. getSalaryMonthKey (txDate t) = month ?e"
        "getFilteredTransactions wholeStore"]
    by linarith
  also have "exactSumAbs (getFilteredTransactions wholeStore) = 11500"
    by (simp add: wholeStore_def storeOf_def expenseOn_def getFilteredTransactions_def
        exactSumAbs_def)
  finally have b: "exactSumAbs ?x \<le> maxSafeInteger"
    by (simp add: maxSafeInteger_def)
  have c: "dailyPoolSpent ?e + monthlyPoolSpent ?e = totalExpenses ?e"
    using getMonthlyData_pool_split [of exampleRuntime wholeStore, rule_format, OF mem] w b
    unfolding Let_def by blast
  then have t: "totalExpenses ?e = 11500" using d m by simp
  show ?thesis using mem l d m t c by (intro conjI)
qed

text \<open>
  C7, where it fails. With a declared income of 100000, pools of 50000 and 40000 and one
  unfiltered income of 70000 in the current period, the remainder of the budget
  calculator is 70000 - 90000 = -20000 and not 100000 - 90000.
\<close>

theorem remainder_not_declared_income:
  "remainder (budgetCalculator exampleRuntime (dateAt 2025 12 20 0 0 0 0)
              (storeOf [incomeOn (dateAt 2025 12 10 9 0 0 0) 70000]))
   \<noteq> income (budget (storeOf [incomeOn (dateAt 2025 12 10 9 0 0 0) 70000]))
      - (foodPoolBudget (budget (storeOf [incomeOn (dateAt 2025 12 10 9 0 0 0) 70000]))
         + monthlyPoolBudget (budget (storeOf [incomeOn (dateAt 2025 12 10 9 0 0 0) 70000])))"
proof -
  have "remainder (budgetCalculator exampleRuntime (dateAt 2025 12 20 0 0 0 0)
              (storeOf [incomeOn (dateAt 2025 12 10 9 0 0 0) 70000])) = - 20000"
    by code_simp
  then show ?thesis by (simp add: storeOf_def exampleBudget_def)
qed

text \<open>
  C7 as amended. The remainder of the budget calculator is the real income minus the sum
  of the two pool budgets, where the real income is the sum of the amounts of the
  unfiltered income transactions of the current salary period (0 when there is none);
  the declared income is not read, and the result is not clamped. The sum and the
  difference are those of the language.
\<close>

theorem remainder_real_income:
  "remainder (budgetCalculator rt now st) =
     subNumber
       (sumAmount (filter (\<lambda>t. txType t = Income)
          (filter (\<lambda>t. getSalaryMonthKey (txDate t) = currentMonth (getCurrentMonthStats now st))
             (getFilteredTransactions st))))
       (addNumber (foodPoolBudget (budget st)) (monthlyPoolBudget (budget st)))"
proof -
  let ?K = "currentMonth (getCurrentMonthStats now st)"
  let ?txs = "filter (\<lambda>t. getSalaryMonthKey (txDate t) = ?K) (getFilteredTransactions st)"
  have r: "remainder (budgetCalculator rt now st) =
      subNumber
        (case find (\<lambda>m. month m = ?K) (getMonthlyData rt st) of
           Some m \<Rightarrow> (if totalIncome m = 0 then 0 else totalIncome m) | None \<Rightarrow> 0)
        (addNumber (foodPoolBudget (budget st)) (monthlyPoolBudget (budget st)))"
    by (simp add: budgetCalculator_def Let_def)
  show ?thesis
  proof (cases "?txs = []")
    case True
    then show ?thesis unfolding r find_month by (simp add: sumAmount_Nil)
  next
    case False
    then show ?thesis unfolding r find_month by (simp add: totalIncome_monthEntry)
  qed
qed

text \<open>
  C6. For a transaction of the transfers category \<open>filterExpense\<close> answers
  \<open>shouldInclude\<close> exactly when the description in lower case contains the bank token in
  Latin or in Cyrillic letters; otherwise the reason is the one of the transfers
  category. The configured lists are not read.
\<close>

theorem filterExpense_transfers:
  assumes "category tx = transfersCategory"
  shows "shouldInclude (filterExpense rt cfg tx) =
           (includesStr (toLowerCase rt (description tx)) (js ''sovcombank'')
            \<or> includesStr (toLowerCase rt (description tx)) sovcombankCyrillic)
         \<and> (\<not> shouldInclude (filterExpense rt cfg tx) \<longrightarrow>
              reason (filterExpense rt cfg tx) = Some transfersReason)
         \<and> filterExpense rt cfg tx = filterExpense rt cfg' tx"
  using assms by (simp add: filterExpense_def Let_def)

theorem filterExpense_transfers_witness:
  "category (expenseOn (dateAt 2025 12 13 10 30 0 0) (- 9000) Other
              \<lparr> category := transfersCategory, description := js ''Loan SOVCOMBANK 12'' \<rparr>)
     = transfersCategory
   \<and> shouldInclude (filterExpense exampleRuntime exampleConfig
         (expenseOn (dateAt 2025 12 13 10 30 0 0) (- 9000) Other
            \<lparr> category := transfersCategory, description := js ''Loan SOVCOMBANK 12'' \<rparr>))
   \<and> includesStr (toLowerCase exampleRuntime (js ''Loan SOVCOMBANK 12'')) (js ''sovcombank'')"
proof -
  define tx where "tx = expenseOn (dateAt 2025 12 13 10 30 0 0) (- 9000) Other
            \<lparr> category := transfersCategory, description := js ''Loan SOVCOMBANK 12'' \<rparr>"
  have c: "category tx = transfersCategory" by (simp add: tx_def)
  have d: "description tx = js ''Loan SOVCOMBANK 12''" by (simp add: tx_def)
  have i: "includesStr (toLowerCase exampleRuntime (js ''Loan SOVCOMBANK 12'')) (js ''sovcombank'')"
    by code_simp
  have "shouldInclude (filterExpense exampleRuntime exampleConfig tx)"
    using filterExpense_transfers [OF c, of exampleRuntime exampleConfig exampleConfig] i
    by (simp add: d)
  then show ?thesis using c i unfolding tx_def by simp
qed

text \<open>
  C5. A line with at least 12 tokens that is not blank gives a transaction exactly when
  its status token is \<open>OK\<close>, and \<open>parseCSV\<close> returns one transaction for each such line
  after the first and none for any other line. Of two rows that differ in the status
  only, \<open>OK\<close> and \<open>FAILED\<close>, the first gives a transaction and the second gives none.
\<close>

theorem parseCSV_keeps_OK_rows:
  "(trim l \<noteq> [] \<and> 12 \<le> length (parseCSVLine (trim l)) \<longrightarrow>
      ((\<exists>tx. parseRow rt cfg i l = Some tx) \<longleftrightarrow> fieldAt l 3 = js ''OK''))
   \<and> (fieldAt l 3 \<noteq> js ''OK'' \<longrightarrow> parseRow rt cfg i l = None)
   \<and> length (parseCSV rt cfg csvText) = length (filter keptLine (drop 1 (splitOn 10 csvText)))
   \<and> (\<exists>tx. parseRow rt cfg 1 (statementRow (js ''OK'')) = Some tx)
   \<and> parseRow rt cfg 2 (statementRow (js ''FAILED'')) = None
   \<and> length (parseCSV rt cfg twoRowStatement) = 1"
proof -
  have ok: "keptLine (statementRow (js ''OK''))"
  proof -
    have "parseCSVLine (trim (statementRow (js ''OK''))) ! 3 = js ''OK''
          \<and> length (parseCSVLine (trim (statementRow (js ''OK'')))) = 12
          \<and> trim (statementRow (js ''OK'')) \<noteq> []"
      by code_simp
    then show ?thesis by (simp add: keptLine_def fieldAt_def)
  qed
  have failed: "\<not> keptLine (statementRow (js ''FAILED''))"
  proof -
    have "parseCSVLine (trim (statementRow (js ''FAILED''))) ! 3 \<noteq> js ''OK''"
      by code_simp
    then show ?thesis by (simp add: keptLine_def fieldAt_def)
  qed
  have blank: "\<not> keptLine []"
    by (simp add: keptLine_def trim_def)
  have ls: "drop 1 (splitOn 10 twoRowStatement)
            = [statementRow (js ''OK''), statementRow (js ''FAILED''), []]"
    by code_simp
  have a: "(\<exists>tx. parseRow rt cfg i l = Some tx) \<longleftrightarrow> fieldAt l 3 = js ''OK''"
    if "trim l \<noteq> [] \<and> 12 \<le> length (parseCSVLine (trim l))"
    using that parseRow_Some_iff [of rt cfg i l] by (simp add: keptLine_def)
  have b: "parseRow rt cfg i l = None" if "fieldAt l 3 \<noteq> js ''OK''"
    using that by (simp add: parseRow_None_iff keptLine_def)
  have c: "\<exists>tx. parseRow rt cfg 1 (statementRow (js ''OK'')) = Some tx"
    using ok by (simp add: parseRow_Some_iff)
  have d: "parseRow rt cfg 2 (statementRow (js ''FAILED'')) = None"
    using failed by (simp add: parseRow_None_iff)
  have e: "length (parseCSV rt cfg twoRowStatement) = 1"
    unfolding length_parseCSV ls using ok failed blank by simp
  show ?thesis using a b c d e length_parseCSV [of rt cfg csvText] by blast
qed

theorem parseCSV_keeps_OK_rows_witness:
  "trim (statementRow (js ''OK'')) \<noteq> []
   \<and> 12 \<le> length (parseCSVLine (trim (statementRow (js ''OK''))))
   \<and> fieldAt (statementRow (js ''OK'')) 3 = js ''OK''
   \<and> (\<exists>tx. parseRow exampleRuntime exampleConfig 1 (statementRow (js ''OK'')) = Some tx)
   \<and> fieldAt (statementRow (js ''FAILED'')) 3 \<noteq> js ''OK''
   \<and> parseRow exampleRuntime exampleConfig 2 (statementRow (js ''FAILED'')) = None"
proof -
  have a: "trim (statementRow (js ''OK'')) \<noteq> []
           \<and> 12 \<le> length (parseCSVLine (trim (statementRow (js ''OK''))))"
    by code_simp
  have b: "fieldAt (statementRow (js ''OK'')) 3 = js ''OK''"
    unfolding fieldAt_def by code_simp
  have c: "fieldAt (statementRow (js ''FAILED'')) 3 \<noteq> js ''OK''"
    unfolding fieldAt_def by code_simp
  note inst = parseCSV_keeps_OK_rows [of "statementRow (js ''OK'')" exampleRuntime exampleConfig 1 "[]"]
  note inst2 = parseCSV_keeps_OK_rows [of "statementRow (js ''FAILED'')" exampleRuntime exampleConfig 2 "[]"]
  have d: "\<exists>tx. parseRow exampleRuntime exampleConfig 1 (statementRow (js ''OK'')) = Some tx"
    using inst [THEN conjunct1] a b by blast
  have e: "parseRow exampleRuntime exampleConfig 2 (statementRow (js ''FAILED'')) = None"
    using inst2 [THEN conjunct2, THEN conjunct1] c by blast
  show ?thesis using a b c d e by blast
qed

text \<open>
  C8. The identifier of every row that is kept is the rolling 32-bit hash (31 times the
  accumulator, plus the code of the character) of the date of the operation as written,
  the amount, the description and the index of the line, joined with hyphens; the
  absolute value of the signed hash is written in base 36, with the digits 0-9 and a-z
  and no sign. The shift and subtraction of
  the source is the multiplication by 31. The identifier is a function of these four
  values only, so that a second reading of the same text gives the same identifiers.
\<close>

theorem parseRow_txId_hash:
  assumes "parseRow rt cfg i l = Some tx"
  shows "txId tx = showBase36 (nat \<bar>sint (rollingHash
           (idSource (fieldAt l 0) (numberToString rt (parseAmount rt (fieldAt l 4)))
              (fieldAt l 11) i))\<bar>)
         \<and> list_all isBase36Digit (txId tx)
         \<and> hashStep h c = h * 31 + ucast c
         \<and> map txId (parseRows rt cfg' i [l]) = [txId tx]"
proof -
  have a: "txId tx = showBase36 (nat \<bar>sint (rollingHash
           (idSource (fieldAt l 0) (numberToString rt (parseAmount rt (fieldAt l 4)))
              (fieldAt l 11) i))\<bar>)"
    unfolding parseRow_txId [OF assms] generateId_formula by simp
  have "keptLine l" using assms parseRow_Some_iff [of rt cfg i l] by blast
  then obtain tx' where t: "parseRow rt cfg' i l = Some tx'"
    using parseRow_Some_iff [of rt cfg' i l] by blast
  have "txId tx' = txId tx"
    unfolding parseRow_txId [OF assms] parseRow_txId [OF t] by (rule refl)
  then have b: "map txId (parseRows rt cfg' i [l]) = [txId tx]"
    using t by simp
  have d: "list_all isBase36Digit (txId tx)"
    unfolding a by (rule showBase36_digits)
  show ?thesis using a b d hashStep_mult by blast
qed

theorem parseRow_txId_hash_witness:
  "(\<exists>tx. parseRow exampleRuntime exampleConfig 1 (statementRow (js ''OK'')) = Some tx
         \<and> txId tx = js ''j7377k'')"
proof -
  let ?l = "statementRow (js ''OK'')"
  have k: "keptLine ?l"
  proof -
    have "parseCSVLine (trim ?l) ! 3 = js ''OK'' \<and> length (parseCSVLine (trim ?l)) = 12
          \<and> trim ?l \<noteq> []"
      by code_simp
    then show ?thesis by (simp add: keptLine_def fieldAt_def)
  qed
  then obtain tx where t: "parseRow exampleRuntime exampleConfig 1 ?l = Some tx"
    using parseRow_Some_iff [of exampleRuntime exampleConfig 1 ?l] by blast
  have f0: "fieldAt ?l 0 = js ''22.11.2025 14:30:00''"
    unfolding fieldAt_def by code_simp
  have f4: "numberToString exampleRuntime (parseAmount exampleRuntime (fieldAt ?l 4)) = js ''-150.5''"
    unfolding fieldAt_def by code_simp
  have f11: "fieldAt ?l 11 = js ''Cafe''"
    unfolding fieldAt_def by code_simp
  have s: "idSource (js ''22.11.2025 14:30:00'') (js ''-150.5'') (js ''Cafe'') 1
           = js ''22.11.2025 14:30:00--150.5-Cafe-1''"
    by (simp add: idSource_def js_def showInt_def showNat.simps digitChar_def)
  have h: "sint (rollingHash (js ''22.11.2025 14:30:00--150.5-Cafe-1'')) = - 1160763968"
    by (simp add: rollingHash_def js_def)
  have b: "showBase36 1160763968 = js ''j7377k''"
    by (simp add: showBase36.simps digit36_def js_def)
  have "txId tx = js ''j7377k''"
    using parseRow_txId_hash [OF t, of 0 0 exampleConfig, THEN conjunct1]
    unfolding f0 f4 f11 s h by (simp add: b)
  then show ?thesis using t by blast
qed

text \<open>
  C9, evaluated where it fails. When the request is rejected, when the response is not
  \<open>ok\<close> and when the body cannot be read, \<open>loadCSVFromPublic\<close> answers with the empty
  list and never with a rejected promise, so that \<open>loadData\<close> stores the empty list, leaves
  the error flag as it was and never reaches its \<open>catch\<close>. After the mount of the
  dashboard on the initial store the error flag is still unset.
\<close>

theorem loadData_failure_sets_no_error:
  "loadCSVFromPublic rt cfg FetchRejected = Inr []
   \<and> loadCSVFromPublic rt cfg (Responded False body) = Inr []
   \<and> loadCSVFromPublic rt cfg (Responded True None) = Inr []
   \<and> error (loadData rt cfg FetchRejected st) = error st
   \<and> error (loadData rt cfg (Responded False body) st) = error st
   \<and> error (loadData rt cfg (Responded True None) st) = error st
   \<and> transactions (loadData rt cfg FetchRejected st) = []
   \<and> error (dashboardMount rt cfg FetchRejected (storeOf [])) = None
   \<and> transactions (dashboardMount rt cfg FetchRejected (storeOf [])) = []"
  by (simp add: loadCSVFromPublic_def loadData_def dashboardMount_def setLoading_def
      setTransactions_def setError_def storeOf_def Let_def)

end
